(* ===== verification/Prelude.thy ===== *)
theory Prelude
  imports Main "HOL-Library.Word" "HOL-Library.Multiset" "HOL-Library.Mapping"
    "HOL-Library.AList_Mapping" "HOL-Library.Monad_Syntax"
begin

text \<open>
  What the components share: the names of the model's types, Go's 64-bit integer
  arithmetic, the clock, memory cells with nil-pointer panics, and generic lemmas on
  lists, options and mappings.

  A Go run-time panic (nil dereference, index out of range) is the value \<^term>\<open>None\<close> of an
  option-valued definition, so "the operation does not panic" is a theorem that the
  result is \<^term>\<open>Some\<close>.
\<close>

section \<open>Collections of facts\<close>

named_theorems go_arith \<open>definitions of Go's machine arithmetic\<close>
named_theorems mem_simps \<open>reading and writing memory cells\<close>
named_theorems policy_defs \<open>the operations of the eviction policies\<close>

section \<open>Types of the model\<close>

text \<open>Go strings and byte slices are byte sequences; \<^typ>\<open>char\<close> is a byte.\<close>

type_synonym bytes = string

text \<open>
  \<open>time.Time\<close> is the number of nanoseconds since Go's zero time, so the zero time is 0.
  \<open>time.Duration\<close> is a number of nanoseconds; where the source multiplies durations the
  64-bit wrap-around is written out with \<open>int64\<close>.
\<close>

type_synonym time = int
type_synonym duration = int

abbreviation IsZero :: "time \<Rightarrow> bool" where
  "IsZero t \<equiv> t = 0"

abbreviation After :: "time \<Rightarrow> time \<Rightarrow> bool" where
  "After t u \<equiv> t > u"

abbreviation Before :: "time \<Rightarrow> time \<Rightarrow> bool" where
  "Before t u \<equiv> t < u"

abbreviation Second :: duration where
  "Second \<equiv> 1000000000"

abbreviation Millisecond :: duration where
  "Millisecond \<equiv> 1000000"

text \<open>
  A clock gives the successive results of \<open>time.Now()\<close> during one call: the \<open>i\<close>-th
  reading of the call is \<open>clk i\<close>. A call that makes further calls hands them the
  readings that are left.
\<close>

type_synonym clock = "nat \<Rightarrow> time"

definition later :: "nat \<Rightarrow> clock \<Rightarrow> clock" where
  "later n clk = (\<lambda>i. clk (n + i))"

lemma later_apply [simp]: "later n clk i = clk (n + i)"
  by (simp add: later_def)

lemma mono_later: "mono clk \<Longrightarrow> mono (later n clk)"
  by (simp add: mono_def)

lemma mono_clockD: "mono clk \<Longrightarrow> i \<le> j \<Longrightarrow> clk i \<le> (clk j :: time)"
  by (rule monoD)

section \<open>Go's signed 64-bit integers\<close>

definition int64 :: "int \<Rightarrow> int" where
  "int64 x = (x + 2 ^ 63) mod 2 ^ 64 - 2 ^ 63"

definition in_int64 :: "int \<Rightarrow> bool" where
  "in_int64 x \<longleftrightarrow> - (2 ^ 63) \<le> x \<and> x < 2 ^ 63"

lemma int64_range: "in_int64 (int64 x)"
proof -
  have "0 \<le> (x + 2 ^ 63) mod 2 ^ 64" "(x + 2 ^ 63) mod 2 ^ 64 < (2 ^ 64 :: int)"
    by simp_all
  then show ?thesis by (simp add: int64_def in_int64_def)
qed

lemma int64_id [simp]: "in_int64 x \<Longrightarrow> int64 x = x"
  by (simp add: int64_def in_int64_def)

lemma int64_idem [simp]: "int64 (int64 x) = int64 x"
  by (rule int64_id) (rule int64_range)

lemma int64_small: "- (2 ^ 63) \<le> x \<Longrightarrow> x < 2 ^ 63 \<Longrightarrow> int64 x = x"
  by (simp add: in_int64_def)

section \<open>Memory\<close>

text \<open>
  Objects behind pointers live in a store from addresses to values. A pointer is an
  address or nil; following nil, or an address outside the store, panics.
\<close>

type_synonym addr = nat
type_synonym 'a store = "addr \<rightharpoonup> 'a"

definition deref :: "'a store \<Rightarrow> addr option \<Rightarrow> 'a option" where
  "deref h p = Option.bind p h"

definition modify :: "addr option \<Rightarrow> ('a \<Rightarrow> 'a) \<Rightarrow> 'a store \<Rightarrow> 'a store option" where
  "modify p f h = (case p of None \<Rightarrow> None
     | Some a \<Rightarrow> (case h a of None \<Rightarrow> None | Some x \<Rightarrow> Some (h(a \<mapsto> f x))))"

lemma deref_simps [simp, mem_simps]:
  "deref h None = None" "deref h (Some a) = h a"
  by (simp_all add: deref_def)

lemma modify_Some [mem_simps]:
  "h a = Some x \<Longrightarrow> modify (Some a) f h = Some (h(a \<mapsto> f x))"
  by (simp add: modify_def)

lemma modify_SomeD:
  "modify p f h = Some h' \<Longrightarrow> \<exists>a x. p = Some a \<and> h a = Some x \<and> h' = h(a \<mapsto> f x)"
  by (auto simp: modify_def split: option.splits)

section \<open>Lists\<close>

definition swap_at :: "nat \<Rightarrow> nat \<Rightarrow> 'a list \<Rightarrow> 'a list" where
  "swap_at i j xs = xs[i := xs ! j, j := xs ! i]"

lemma length_swap_at [simp]: "length (swap_at i j xs) = length xs"
  by (simp add: swap_at_def)

lemma nth_swap_at:
  "i < length xs \<Longrightarrow> j < length xs \<Longrightarrow>
   swap_at i j xs ! k = (if k = j then xs ! i else if k = i then xs ! j else xs ! k)"
  by (cases "k < length xs") (auto simp: swap_at_def nth_list_update)

lemma mset_swap_at [simp]:
  "i < length xs \<Longrightarrow> j < length xs \<Longrightarrow> mset (swap_at i j xs) = mset xs"
  by (simp add: swap_at_def mset_swap)

lemma set_swap_at [simp]:
  "i < length xs \<Longrightarrow> j < length xs \<Longrightarrow> set (swap_at i j xs) = set xs"
  by (metis mset_swap_at set_mset_mset)

lemma distinct_swap_at [simp]:
  "i < length xs \<Longrightarrow> j < length xs \<Longrightarrow> distinct (swap_at i j xs) = distinct xs"
  by (metis mset_swap_at mset_eq_imp_distinct_iff)

lemma map_swap_at:
  "i < length xs \<Longrightarrow> j < length xs \<Longrightarrow> map f (swap_at i j xs) = swap_at i j (map f xs)"
  by (simp add: swap_at_def map_update)

section \<open>Options and mappings\<close>

text \<open>\<^term>\<open>x \<noteq> None\<close> for an optional pair, in the form the simplifier leaves it.\<close>

lemma all_not_Some_pair [simp]: "(\<forall>a b. x \<noteq> Some (a, b)) \<longleftrightarrow> x = None"
  by (cases x) auto

lemma size_mapping_card:
  "finite (Mapping.keys m) \<Longrightarrow> Mapping.size m = card (Mapping.keys m)"
  by (simp add: Mapping.size_def)

lemma keys_lookup_iff: "k \<in> Mapping.keys m \<longleftrightarrow> Mapping.lookup m k \<noteq> None"
  by (simp add: Mapping.keys_dom_lookup dom_def)

lemma keys_lookup_SomeI: "Mapping.lookup m k = Some v \<Longrightarrow> k \<in> Mapping.keys m"
  by (simp add: keys_lookup_iff)

lemma lookup_delete_if:
  "Mapping.lookup (Mapping.delete k m) k' = (if k = k' then None else Mapping.lookup m k')"
  by (cases "k = k'") simp_all

lemmas mapping_simps = Mapping.lookup_update' lookup_delete_if

end
