(* ===== verification/EvictionPolicy.thy ===== *)
theory EvictionPolicy
  imports Prelude
begin

text \<open>
  The interface \<open>shared.EvictionPolicy\<close> (\<open>src/internal/shared/eviction.go\<close>): a record of the
  five methods over the policy's own state, and the contract the in-memory cache relies on
  as the locale \<open>eviction_policy\<close>. A method that calls \<open>time.Now()\<close> takes the reading as
  an argument; a panic is \<^term>\<open>None\<close>.
\<close>

record 'p EvictionPolicy =
  OnAccess :: "string \<Rightarrow> time \<Rightarrow> 'p \<Rightarrow> 'p option"
  OnInsert :: "string \<Rightarrow> time \<Rightarrow> time \<Rightarrow> 'p \<Rightarrow> 'p option"
  OnEvict :: "string \<Rightarrow> 'p \<Rightarrow> 'p option"
  Evict :: "'p \<Rightarrow> (string option \<times> 'p) option"
  Name :: "'p \<Rightarrow> string"

text \<open>
  The contract: the policy tracks a set of keys. It never panics; \<open>OnInsert\<close> of a new key
  and \<open>OnEvict\<close> add and remove exactly that key; \<open>Evict\<close> names a tracked key, and says
  \<open>ok = false\<close> only if there is none.
\<close>

locale eviction_policy =
  fixes P :: "'p EvictionPolicy"
    and inv :: "'p \<Rightarrow> bool"
    and tracked :: "'p \<Rightarrow> string set"
  assumes OnAccess_ok: "inv p \<Longrightarrow>
      \<exists>p'. OnAccess P k t p = Some p' \<and> inv p' \<and> tracked p' = tracked p"
    and OnInsert_ok: "inv p \<Longrightarrow> k \<notin> tracked p \<Longrightarrow>
      \<exists>p'. OnInsert P k e t p = Some p' \<and> inv p' \<and> tracked p' = insert k (tracked p)"
    and OnEvict_ok: "inv p \<Longrightarrow>
      \<exists>p'. OnEvict P k p = Some p' \<and> inv p' \<and> tracked p' = tracked p - {k}"
    and Evict_ok: "inv p \<Longrightarrow>
      \<exists>v p'. Evict P p = Some (v, p') \<and> inv p' \<and> tracked p' = tracked p \<and>
        (case v of None \<Rightarrow> tracked p = {} | Some k \<Rightarrow> k \<in> tracked p)"
begin

lemma Evict_cases:
  assumes "inv p"
  obtains (none) p' where "Evict P p = Some (None, p')" "inv p'" "tracked p' = tracked p" "tracked p = {}"
    | (some) k p' where "Evict P p = Some (Some k, p')" "inv p'" "tracked p' = tracked p" "k \<in> tracked p"
  using Evict_ok [OF assms] by (auto split: option.splits)

text \<open>Evicting when a key is tracked, and then telling the policy, removes exactly one key.\<close>

lemma evict_one:
  assumes "inv p" "tracked p \<noteq> {}"
  obtains k p1 p2 where "Evict P p = Some (Some k, p1)" "k \<in> tracked p"
    "OnEvict P k p1 = Some p2" "inv p2" "tracked p2 = tracked p - {k}"
  using assms(1)
proof (cases rule: Evict_cases)
  case none
  with assms(2) show ?thesis by simp
next
  case (some k p1)
  with OnEvict_ok [of p1 k] that show ?thesis by auto
qed

end

end
