(* ===== verification/LRU.thy ===== *)
theory LRU
  imports EvictionPolicy
begin

text \<open>
  \<open>src/internal/eviction/lru.go\<close>: the least-recently-used policy as the code has it, a
  doubly linked list of heap-allocated nodes between two sentinels, and a map from keys to
  nodes. The pointer structure is related to the list of keys in order of recency
  (\<open>lru_rep\<close>), and every operation is shown to refine its one-line description on
  that list.
\<close>

section \<open>The code\<close>

record lruNode =
  node_key :: string
  node_prev :: "addr option"
  node_next :: "addr option"

text \<open>\<open>lru_mem\<close> is the memory the nodes live in and \<open>lru_brk\<close> the next address to allocate.\<close>

record LRU =
  lru_nodes :: "string \<rightharpoonup> addr"
  lru_head :: addr
  lru_tail :: addr
  lru_mem :: "lruNode store"
  lru_brk :: addr

definition NewLRU :: LRU where
  "NewLRU = \<lparr>lru_nodes = Map.empty, lru_head = 0, lru_tail = 1,
     lru_mem = [0 \<mapsto> \<lparr>node_key = [], node_prev = None, node_next = Some 1\<rparr>,
                1 \<mapsto> \<lparr>node_key = [], node_prev = Some 0, node_next = None\<rparr>],
     lru_brk = 2\<rparr>"

abbreviation set_prev :: "addr option \<Rightarrow> addr option \<Rightarrow> lruNode store \<Rightarrow> lruNode store option" where
  "set_prev p v \<equiv> modify p (\<lambda>n. n\<lparr>node_prev := v\<rparr>)"

abbreviation set_next :: "addr option \<Rightarrow> addr option \<Rightarrow> lruNode store \<Rightarrow> lruNode store option" where
  "set_next p v \<equiv> modify p (\<lambda>n. n\<lparr>node_next := v\<rparr>)"

definition lru_insertAtFront :: "addr \<Rightarrow> LRU \<Rightarrow> LRU option" where
  "lru_insertAtFront node l = do {
     m1 \<leftarrow> set_prev (Some node) (Some (lru_head l)) (lru_mem l);
     h \<leftarrow> deref m1 (Some (lru_head l));
     m2 \<leftarrow> set_next (Some node) (node_next h) m1;
     h' \<leftarrow> deref m2 (Some (lru_head l));
     m3 \<leftarrow> set_prev (node_next h') (Some node) m2;
     m4 \<leftarrow> set_next (Some (lru_head l)) (Some node) m3;
     Some (l\<lparr>lru_mem := m4\<rparr>)
   }"

definition lru_removeNode :: "addr \<Rightarrow> LRU \<Rightarrow> LRU option" where
  "lru_removeNode node l = do {
     n \<leftarrow> deref (lru_mem l) (Some node);
     m1 \<leftarrow> set_next (node_prev n) (node_next n) (lru_mem l);
     n' \<leftarrow> deref m1 (Some node);
     m2 \<leftarrow> set_prev (node_next n') (node_prev n') m1;
     Some (l\<lparr>lru_mem := m2\<rparr>)
   }"

definition lru_moveToFront :: "addr \<Rightarrow> LRU \<Rightarrow> LRU option" where
  "lru_moveToFront node l = do { l1 \<leftarrow> lru_removeNode node l; lru_insertAtFront node l1 }"

definition lru_OnAccess :: "string \<Rightarrow> time \<Rightarrow> LRU \<Rightarrow> LRU option" where
  "lru_OnAccess key now l = (case lru_nodes l key of
       None \<Rightarrow> Some l
     | Some node \<Rightarrow> lru_moveToFront node l)"

definition lru_OnInsert :: "string \<Rightarrow> time \<Rightarrow> time \<Rightarrow> LRU \<Rightarrow> LRU option" where
  "lru_OnInsert key expiresAt now l =
     (let node = lru_brk l
      in lru_insertAtFront node
           (l\<lparr>lru_mem := (lru_mem l)(node \<mapsto> \<lparr>node_key = key, node_prev = None, node_next = None\<rparr>),
              lru_brk := Suc node,
              lru_nodes := (lru_nodes l)(key \<mapsto> node)\<rparr>))"

definition lru_OnEvict :: "string \<Rightarrow> LRU \<Rightarrow> LRU option" where
  "lru_OnEvict key l = (case lru_nodes l key of
       None \<Rightarrow> Some l
     | Some node \<Rightarrow> do {
         l1 \<leftarrow> lru_removeNode node l;
         Some (l1\<lparr>lru_nodes := (lru_nodes l1)(key := None)\<rparr>) })"

definition lru_Evict :: "LRU \<Rightarrow> (string option \<times> LRU) option" where
  "lru_Evict l = do {
     t \<leftarrow> deref (lru_mem l) (Some (lru_tail l));
     if node_prev t = Some (lru_head l) then Some (None, l)
     else do { n \<leftarrow> deref (lru_mem l) (node_prev t); Some (Some (node_key n), l) } }"

definition lru_Name :: "LRU \<Rightarrow> string" where
  "lru_Name l = ''lru''"

definition lru_policy :: "LRU EvictionPolicy" where
  "lru_policy = \<lparr>OnAccess = lru_OnAccess, OnInsert = lru_OnInsert, OnEvict = lru_OnEvict,
     Evict = lru_Evict, Name = lru_Name\<rparr>"

section \<open>Linked segments of memory\<close>

definition nxt :: "lruNode store \<Rightarrow> addr \<Rightarrow> addr option" where
  "nxt m a = Option.bind (m a) node_next"

definition prv :: "lruNode store \<Rightarrow> addr \<Rightarrow> addr option" where
  "prv m a = Option.bind (m a) node_prev"

definition nkey :: "lruNode store \<Rightarrow> addr \<Rightarrow> string option" where
  "nkey m a = map_option node_key (m a)"

text \<open>Consecutive addresses of the list point at each other.\<close>

fun linked :: "lruNode store \<Rightarrow> addr list \<Rightarrow> bool" where
  "linked m (a # b # cs) \<longleftrightarrow> nxt m a = Some b \<and> prv m b = Some a \<and> linked m (b # cs)"
| "linked m _ \<longleftrightarrow> True"

lemma linked_append: "linked m (xs @ a # ys) \<longleftrightarrow> linked m (xs @ [a]) \<and> linked m (a # ys)"
  by (induction xs rule: induct_list012) auto

text \<open>A segment depends on the next pointers of all but its last address and the prev
  pointers of all but its first.\<close>

lemma linked_cong:
  assumes "\<And>a. a \<in> set (butlast xs) \<Longrightarrow> nxt m' a = nxt m a"
    and "\<And>a. a \<in> set (tl xs) \<Longrightarrow> prv m' a = prv m a"
  shows "linked m' xs = linked m xs"
  using assms by (induction xs rule: induct_list012) auto

lemma set_next_effect:
  assumes "m a = Some n"
  shows "set_next (Some a) v m = Some (m(a \<mapsto> n\<lparr>node_next := v\<rparr>))"
    "nxt (m(a \<mapsto> n\<lparr>node_next := v\<rparr>)) = (nxt m)(a := v)"
    "prv (m(a \<mapsto> n\<lparr>node_next := v\<rparr>)) = prv m"
    "nkey (m(a \<mapsto> n\<lparr>node_next := v\<rparr>)) = nkey m"
    "dom (m(a \<mapsto> n\<lparr>node_next := v\<rparr>)) = dom m"
  using assms by (auto simp: modify_def nxt_def prv_def nkey_def fun_eq_iff)

lemma set_prev_effect:
  assumes "m a = Some n"
  shows "set_prev (Some a) v m = Some (m(a \<mapsto> n\<lparr>node_prev := v\<rparr>))"
    "prv (m(a \<mapsto> n\<lparr>node_prev := v\<rparr>)) = (prv m)(a := v)"
    "nxt (m(a \<mapsto> n\<lparr>node_prev := v\<rparr>)) = nxt m"
    "nkey (m(a \<mapsto> n\<lparr>node_prev := v\<rparr>)) = nkey m"
    "dom (m(a \<mapsto> n\<lparr>node_prev := v\<rparr>)) = dom m"
  using assms by (auto simp: modify_def nxt_def prv_def nkey_def fun_eq_iff)

text \<open>The same facts for a write whose result is named: what the rest of the proofs use.\<close>

lemma set_next_ok:
  assumes "a \<in> dom m"
  obtains m' where "set_next (Some a) v m = Some m'" "nxt m' = (nxt m)(a := v)" "prv m' = prv m"
    "nkey m' = nkey m" "dom m' = dom m"
  using assms set_next_effect [of m a] by (metis domD)

lemma set_prev_ok:
  assumes "a \<in> dom m"
  obtains m' where "set_prev (Some a) v m = Some m'" "prv m' = (prv m)(a := v)" "nxt m' = nxt m"
    "nkey m' = nkey m" "dom m' = dom m"
  using assms set_prev_effect [of m a] by (metis domD)

lemma deref_links:
  assumes "a \<in> dom m"
  obtains n where "m a = Some n" "node_next n = nxt m a" "node_prev n = prv m a"
  using assms by (auto simp: nxt_def prv_def)

section \<open>The two list surgeries\<close>

lemma removeNode_linked:
  assumes L: "linked (lru_mem l) (us @ p # a # q # vs)" and D: "distinct (us @ p # a # q # vs)"
    and A: "set (us @ p # a # q # vs) \<subseteq> dom (lru_mem l)"
  obtains m where "lru_removeNode a l = Some (l\<lparr>lru_mem := m\<rparr>)" "linked m (us @ p # q # vs)"
    "nkey m = nkey (lru_mem l)" "dom m = dom (lru_mem l)"
proof -
  let ?m = "lru_mem l"
  have l1: "linked ?m (us @ [p])" "nxt ?m p = Some a" "prv ?m a = Some p"
      "nxt ?m a = Some q" "prv ?m q = Some a" "linked ?m (q # vs)"
    using L linked_append [of ?m us p "a # q # vs"] by auto
  obtain n where n: "?m a = Some n" "node_next n = Some q" "node_prev n = Some p"
    using A l1 by (auto elim!: deref_links [of a ?m])
  obtain m1 where m1: "set_next (Some p) (Some q) ?m = Some m1" "nxt m1 = (nxt ?m)(p := Some q)"
      "prv m1 = prv ?m" "nkey m1 = nkey ?m" "dom m1 = dom ?m"
    by (rule set_next_ok [of p ?m "Some q"]) (use A in auto)
  have "a \<in> dom m1" using A m1 by simp
  then obtain n' where n': "m1 a = Some n'" "node_next n' = Some q" "node_prev n' = Some p"
    using D l1 m1 by (elim deref_links) auto
  obtain m2 where m2: "set_prev (Some q) (Some p) m1 = Some m2" "prv m2 = (prv m1)(q := Some p)"
      "nxt m2 = nxt m1" "nkey m2 = nkey m1" "dom m2 = dom m1"
    by (rule set_prev_ok [of q m1 "Some p"]) (use A m1 in auto)
  have "linked m2 (us @ [p]) = linked ?m (us @ [p])"
    using D m1 m2 by (intro linked_cong) (auto dest: list.set_sel(2) [rotated])
  moreover have "linked m2 (q # vs) = linked ?m (q # vs)"
    using D m1 m2 by (intro linked_cong) (auto dest: in_set_butlastD split: if_splits)
  ultimately have "linked m2 (us @ p # q # vs)"
    using l1 m1 m2 linked_append [of m2 us p "q # vs"] D by simp
  moreover have "lru_removeNode a l = Some (l\<lparr>lru_mem := m2\<rparr>)"
    using n m1 n' m2 by (simp add: lru_removeNode_def)
  ultimately show thesis using that m1 m2 by simp
qed

lemma insertAtFront_linked:
  assumes L: "linked (lru_mem l) (lru_head l # f # vs)" and D: "distinct (lru_head l # f # vs)"
    and a: "a \<notin> set (lru_head l # f # vs)"
    and A: "set (a # lru_head l # f # vs) \<subseteq> dom (lru_mem l)"
  obtains m where "lru_insertAtFront a l = Some (l\<lparr>lru_mem := m\<rparr>)" "linked m (lru_head l # a # f # vs)"
    "nkey m = nkey (lru_mem l)" "dom m = dom (lru_mem l)"
proof -
  let ?m = "lru_mem l" and ?h = "lru_head l"
  obtain m1 where m1: "set_prev (Some a) (Some ?h) ?m = Some m1" "prv m1 = (prv ?m)(a := Some ?h)"
      "nxt m1 = nxt ?m" "nkey m1 = nkey ?m" "dom m1 = dom ?m"
    by (rule set_prev_ok [of a ?m "Some ?h"]) (use A in auto)
  have "?h \<in> dom m1" using A m1 by simp
  then obtain h where h: "m1 ?h = Some h" "node_next h = Some f"
    using L m1 by (elim deref_links) auto
  obtain m2 where m2: "set_next (Some a) (Some f) m1 = Some m2" "nxt m2 = (nxt m1)(a := Some f)"
      "prv m2 = prv m1" "nkey m2 = nkey m1" "dom m2 = dom m1"
    by (rule set_next_ok [of a m1 "Some f"]) (use A m1 in auto)
  have "?h \<in> dom m2" using A m1 m2 by simp
  then obtain h' where h': "m2 ?h = Some h'" "node_next h' = Some f"
    using L a m1 m2 by (elim deref_links) auto
  obtain m3 where m3: "set_prev (Some f) (Some a) m2 = Some m3" "prv m3 = (prv m2)(f := Some a)"
      "nxt m3 = nxt m2" "nkey m3 = nkey m2" "dom m3 = dom m2"
    by (rule set_prev_ok [of f m2 "Some a"]) (use A m1 m2 in auto)
  obtain m4 where m4: "set_next (Some ?h) (Some a) m3 = Some m4" "nxt m4 = (nxt m3)(?h := Some a)"
      "prv m4 = prv m3" "nkey m4 = nkey m3" "dom m4 = dom m3"
    by (rule set_next_ok [of ?h m3 "Some a"]) (use A m1 m2 m3 in auto)
  note ms = m1 m2 m3 m4
  have "linked m4 (f # vs) = linked ?m (f # vs)"
    using D a ms by (intro linked_cong) (auto dest: in_set_butlastD split: if_splits)
  then have "linked m4 (?h # a # f # vs)"
    using L D a ms by auto
  moreover have "lru_insertAtFront a l = Some (l\<lparr>lru_mem := m4\<rparr>)"
    using m1(1) h m2(1) h' m3(1) m4(1) by (simp add: lru_insertAtFront_def)
  ultimately show thesis using that ms by simp
qed

section \<open>The list of keys in order of recency\<close>

text \<open>
  \<open>lru_nodes_at l as\<close>: the nodes between the sentinels are at the addresses \<open>as\<close>, most
  recently used first, properly linked, and the map holds exactly their keys.
\<close>

definition lru_nodes_at :: "LRU \<Rightarrow> addr list \<Rightarrow> bool" where
  "lru_nodes_at l as \<longleftrightarrow>
     distinct (lru_head l # as @ [lru_tail l]) \<and>
     linked (lru_mem l) (lru_head l # as @ [lru_tail l]) \<and>
     set (lru_head l # as @ [lru_tail l]) \<subseteq> dom (lru_mem l) \<and>
     (\<forall>a \<in> dom (lru_mem l). a < lru_brk l) \<and>
     (\<forall>k a. lru_nodes l k = Some a \<longleftrightarrow> a \<in> set as \<and> nkey (lru_mem l) a = Some k)"

definition lru_rep :: "LRU \<Rightarrow> string list \<Rightarrow> bool" where
  "lru_rep l ks \<longleftrightarrow> (\<exists>as. lru_nodes_at l as \<and> map (nkey (lru_mem l)) as = map Some ks)"

definition lru_inv :: "LRU \<Rightarrow> bool" where
  "lru_inv l \<longleftrightarrow> (\<exists>ks. lru_rep l ks)"

definition lru_tracked :: "LRU \<Rightarrow> string set" where
  "lru_tracked l = dom (lru_nodes l)"

lemma lru_rep_New: "lru_rep NewLRU []"
  by (auto simp: lru_rep_def lru_nodes_at_def NewLRU_def nxt_def prv_def)

lemma lru_rep_tracked: "lru_rep l ks \<Longrightarrow> lru_tracked l = set ks"
proof -
  assume "lru_rep l ks"
  then obtain as where as: "lru_nodes_at l as" "map (nkey (lru_mem l)) as = map Some ks"
    by (auto simp: lru_rep_def)
  have "\<forall>k a. lru_nodes l k = Some a \<longleftrightarrow> a \<in> set as \<and> nkey (lru_mem l) a = Some k"
    using as(1) by (simp add: lru_nodes_at_def)
  then have "lru_tracked l = {k. \<exists>a. a \<in> set as \<and> nkey (lru_mem l) a = Some k}"
    by (simp add: lru_tracked_def dom_def)
  also have "\<dots> = {k. Some k \<in> nkey (lru_mem l) ` set as}"
    by (force simp: image_iff)
  also have "nkey (lru_mem l) ` set as = Some ` set ks"
    using arg_cong [OF as(2), of set] by simp
  finally show ?thesis by auto
qed

lemma lru_rep_distinct: "lru_rep l ks \<Longrightarrow> distinct ks"
proof -
  assume "lru_rep l ks"
  then obtain as where as: "lru_nodes_at l as" "map (nkey (lru_mem l)) as = map Some ks"
    by (auto simp: lru_rep_def)
  have "inj_on (nkey (lru_mem l)) (set as)"
  proof (rule inj_onI)
    fix a b assume ab: "a \<in> set as" "b \<in> set as" "nkey (lru_mem l) a = nkey (lru_mem l) b"
    moreover have "nkey (lru_mem l) a \<in> Some ` set ks"
      using ab(1) arg_cong [OF as(2), of set] by auto
    then obtain k where "nkey (lru_mem l) a = Some k" by auto
    ultimately have "lru_nodes l k = Some a" "lru_nodes l k = Some b"
      using as(1) ab by (auto simp: lru_nodes_at_def)
    then show "a = b" by simp
  qed
  moreover have "distinct as" using as(1) by (simp add: lru_nodes_at_def)
  ultimately have "distinct (map (nkey (lru_mem l)) as)" by (simp add: distinct_map)
  then show ?thesis unfolding as(2) by (simp add: distinct_map)
qed

text \<open>Where a tracked key sits: its node splits the addresses and the keys alike.\<close>

lemma lru_rep_split:
  assumes "lru_rep l ks" "lru_nodes l k = Some a"
  obtains xs ys kx ky where "lru_nodes_at l (xs @ a # ys)" "ks = kx @ k # ky"
    "map (nkey (lru_mem l)) xs = map Some kx" "map (nkey (lru_mem l)) ys = map Some ky"
    "nkey (lru_mem l) a = Some k"
proof -
  from assms obtain as where as: "lru_nodes_at l as" "map (nkey (lru_mem l)) as = map Some ks"
    by (auto simp: lru_rep_def)
  with assms(2) have "a \<in> set as" and ka: "nkey (lru_mem l) a = Some k"
    by (auto simp: lru_nodes_at_def)
  then obtain xs ys where xy: "as = xs @ a # ys" by (meson split_list)
  with as(2) have "map Some ks = map (nkey (lru_mem l)) xs @ Some k # map (nkey (lru_mem l)) ys"
    using ka by simp
  then obtain kx ky where "ks = kx @ k # ky" "map (nkey (lru_mem l)) xs = map Some kx"
    "map (nkey (lru_mem l)) ys = map Some ky"
    by (auto simp: map_eq_append_conv map_eq_Cons_conv)
  with as(1) xy ka show thesis by (intro that [of xs ys kx ky]) simp_all
qed

section \<open>Every operation on the list of keys\<close>

lemma lru_removeNode_rep:
  assumes "lru_rep l ks" "lru_nodes l k = Some a"
  obtains m as where "lru_removeNode a l = Some (l\<lparr>lru_mem := m\<rparr>)"
    "distinct (a # lru_head l # as @ [lru_tail l])" "linked m (lru_head l # as @ [lru_tail l])"
    "map (nkey m) as = map Some (remove1 k ks)"
    "\<forall>k' a'. lru_nodes l k' = Some a' \<longleftrightarrow> a' \<in> set (a # as) \<and> nkey m a' = Some k'"
    "nkey m a = Some k" "set (a # lru_head l # as @ [lru_tail l]) \<subseteq> dom m"
    "dom m = dom (lru_mem l)" "\<forall>a \<in> dom m. a < lru_brk l"
proof -
  from assms obtain xs ys kx ky where at: "lru_nodes_at l (xs @ a # ys)" and ks: "ks = kx @ k # ky"
    and keys: "map (nkey (lru_mem l)) xs = map Some kx" "map (nkey (lru_mem l)) ys = map Some ky"
      "nkey (lru_mem l) a = Some k"
    by (rule lru_rep_split)
  obtain us p where p: "lru_head l # xs = us @ [p]" by (metis list.discI rev_exhaust)
  obtain q vs where q: "ys @ [lru_tail l] = q # vs" by (cases "ys @ [lru_tail l]") auto
  have cs: "lru_head l # (xs @ a # ys) @ [lru_tail l] = us @ p # a # q # vs"
    using p q by (metis append.assoc append_Cons append_Nil)
  have cs': "lru_head l # (xs @ ys) @ [lru_tail l] = us @ p # q # vs"
    using p q by (metis append.assoc append_Cons append_Nil)
  have at': "distinct (us @ p # a # q # vs)" "linked (lru_mem l) (us @ p # a # q # vs)"
    "set (us @ p # a # q # vs) \<subseteq> dom (lru_mem l)"
    using at unfolding lru_nodes_at_def cs by blast+
  from removeNode_linked [OF at'(2,1,3)] obtain m where
    m: "lru_removeNode a l = Some (l\<lparr>lru_mem := m\<rparr>)" "linked m (us @ p # q # vs)"
      "nkey m = nkey (lru_mem l)" "dom m = dom (lru_mem l)" by blast
  have "k \<notin> set kx" using lru_rep_distinct [OF assms(1)] ks by simp
  then have r: "remove1 k ks = kx @ ky" by (simp add: ks remove1_append)
  show thesis
  proof (rule that [of m "xs @ ys"])
    show "distinct (a # lru_head l # (xs @ ys) @ [lru_tail l])"
      using at by (auto simp: lru_nodes_at_def)
    show "linked m (lru_head l # (xs @ ys) @ [lru_tail l])" using m(2) by (simp only: cs')
    show "\<forall>k' a'. lru_nodes l k' = Some a' \<longleftrightarrow> a' \<in> set (a # xs @ ys) \<and> nkey m a' = Some k'"
      using at m(3) by (auto simp: lru_nodes_at_def)
  qed (use at m keys r in \<open>auto simp: lru_nodes_at_def\<close>)
qed

lemma lru_OnAccess_rep:
  assumes "lru_rep l ks"
  shows "\<exists>l'. lru_OnAccess k t l = Some l' \<and>
    lru_rep l' (if k \<in> set ks then k # remove1 k ks else ks)"
proof (cases "lru_nodes l k")
  case None
  then have "k \<notin> set ks" using lru_rep_tracked [OF assms] by (auto simp: lru_tracked_def)
  with None assms show ?thesis by (simp add: lru_OnAccess_def)
next
  case (Some a)
  then have k: "k \<in> set ks" using lru_rep_tracked [OF assms] by (auto simp: lru_tracked_def)
  from assms Some obtain m as where m: "lru_removeNode a l = Some (l\<lparr>lru_mem := m\<rparr>)"
    "distinct (a # lru_head l # as @ [lru_tail l])" "linked m (lru_head l # as @ [lru_tail l])"
    "map (nkey m) as = map Some (remove1 k ks)"
    "\<forall>k' a'. lru_nodes l k' = Some a' \<longleftrightarrow> a' \<in> set (a # as) \<and> nkey m a' = Some k'"
    "nkey m a = Some k" "set (a # lru_head l # as @ [lru_tail l]) \<subseteq> dom m"
    "dom m = dom (lru_mem l)" "\<forall>a \<in> dom m. a < lru_brk l"
    by (rule lru_removeNode_rep)
  obtain f vs where f: "as @ [lru_tail l] = f # vs" by (cases "as @ [lru_tail l]") auto
  obtain m' where m': "lru_insertAtFront a (l\<lparr>lru_mem := m\<rparr>) = Some (l\<lparr>lru_mem := m'\<rparr>)"
    "linked m' (lru_head l # a # f # vs)" "nkey m' = nkey m" "dom m' = dom m"
    using insertAtFront_linked [of "l\<lparr>lru_mem := m\<rparr>" f vs a] m(2,3,7) f by auto
  have "lru_nodes_at (l\<lparr>lru_mem := m'\<rparr>) (a # as)"
    unfolding lru_nodes_at_def using m m' f by auto
  then have "lru_rep (l\<lparr>lru_mem := m'\<rparr>) (k # remove1 k ks)"
    unfolding lru_rep_def using m m' by (intro exI [of _ "a # as"]) simp
  moreover have "lru_OnAccess k t l = Some (l\<lparr>lru_mem := m'\<rparr>)"
    using Some m(1) m'(1) by (simp add: lru_OnAccess_def lru_moveToFront_def)
  ultimately show ?thesis using k by simp
qed

lemma lru_OnInsert_rep:
  assumes "lru_rep l ks" "k \<notin> set ks"
  shows "\<exists>l'. lru_OnInsert k e t l = Some l' \<and> lru_rep l' (k # ks)"
proof -
  from assms(1) obtain as where at: "lru_nodes_at l as" "map (nkey (lru_mem l)) as = map Some ks"
    by (auto simp: lru_rep_def)
  let ?a = "lru_brk l"
  define m where "m = (lru_mem l)(?a \<mapsto> \<lparr>node_key = k, node_prev = None, node_next = None\<rparr>)"
  define l1 where "l1 = l\<lparr>lru_mem := m, lru_brk := Suc ?a, lru_nodes := (lru_nodes l)(k \<mapsto> ?a)\<rparr>"
  have a: "?a \<notin> dom (lru_mem l)" using at(1) by (auto simp: lru_nodes_at_def)
  then have ne: "a' \<noteq> ?a" if "a' \<in> set (lru_head l # as @ [lru_tail l])" for a'
    using at(1) that by (auto simp: lru_nodes_at_def)
  have m: "nxt m a' = nxt (lru_mem l) a'" "prv m a' = prv (lru_mem l) a'" "nkey m a' = nkey (lru_mem l) a'"
    if "a' \<noteq> ?a" for a' using that by (simp_all add: m_def nxt_def prv_def nkey_def)
  have nodes: "\<forall>k' a'. lru_nodes l k' = Some a' \<longleftrightarrow> a' \<in> set as \<and> nkey (lru_mem l) a' = Some k'"
    using at(1) by (simp add: lru_nodes_at_def)
  have k: "lru_nodes l k = None"
    using assms lru_rep_tracked [OF assms(1)] by (auto simp: lru_tracked_def)
  obtain f vs where f: "as @ [lru_tail l] = f # vs" by (cases "as @ [lru_tail l]") auto
  have "linked m (lru_head l # as @ [lru_tail l]) = linked (lru_mem l) (lru_head l # as @ [lru_tail l])"
    by (intro linked_cong m ne) (auto dest: in_set_butlastD)
  moreover have "distinct (lru_head l # as @ [lru_tail l])"
    "linked (lru_mem l) (lru_head l # as @ [lru_tail l])"
    "set (lru_head l # as @ [lru_tail l]) \<subseteq> dom (lru_mem l)"
    using at(1) unfolding lru_nodes_at_def by blast+
  ultimately have P: "linked (lru_mem l1) (lru_head l1 # f # vs)" "distinct (lru_head l1 # f # vs)"
    "set (?a # lru_head l1 # f # vs) \<subseteq> dom (lru_mem l1)" "?a \<notin> set (lru_head l1 # f # vs)"
    using ne unfolding f by (auto simp: l1_def m_def)
  obtain m' where m': "lru_insertAtFront ?a l1 = Some (l1\<lparr>lru_mem := m'\<rparr>)"
    "linked m' (lru_head l # ?a # f # vs)" "nkey m' = nkey m" "dom m' = dom m"
    using insertAtFront_linked [OF P(1,2,4,3)] by (auto simp: l1_def)
  have nk: "nkey m ?a = Some k" by (simp add: m_def nkey_def)
  have "lru_nodes_at (l1\<lparr>lru_mem := m'\<rparr>) (?a # as)"
    unfolding lru_nodes_at_def
  proof (intro conjI)
    show "\<forall>k' a'. lru_nodes (l1\<lparr>lru_mem := m'\<rparr>) k' = Some a' \<longleftrightarrow>
        a' \<in> set (?a # as) \<and> nkey (lru_mem (l1\<lparr>lru_mem := m'\<rparr>)) a' = Some k'"
    proof (intro allI)
      fix k' a'
      show "lru_nodes (l1\<lparr>lru_mem := m'\<rparr>) k' = Some a' \<longleftrightarrow>
        a' \<in> set (?a # as) \<and> nkey (lru_mem (l1\<lparr>lru_mem := m'\<rparr>)) a' = Some k'"
        using nodes spec [OF spec [OF nodes, of k], of a'] nk m(3) [of a'] ne [of a'] k m'(3)
        by (cases "a' = ?a") (auto simp: l1_def)
    qed
  qed (use at(1) m' f ne in \<open>auto simp: l1_def m_def lru_nodes_at_def less_Suc_eq\<close>)
  moreover have "map (nkey m') as = map Some ks"
    using at(2) m(3) ne m'(3) by (metis (no_types, lifting) append.simps(2) list.set_intros(2) map_eq_conv set_append Un_iff)
  ultimately have "lru_rep (l1\<lparr>lru_mem := m'\<rparr>) (k # ks)"
    unfolding lru_rep_def using nk m'(3) by (intro exI [of _ "?a # as"]) simp
  with m'(1) show ?thesis
    by (simp add: lru_OnInsert_def l1_def m_def Let_def)
qed

lemma lru_OnEvict_rep:
  assumes "lru_rep l ks"
  shows "\<exists>l'. lru_OnEvict k l = Some l' \<and> lru_rep l' (remove1 k ks)"
proof (cases "lru_nodes l k")
  case None
  then have "k \<notin> set ks" using lru_rep_tracked [OF assms] by (auto simp: lru_tracked_def)
  with None assms show ?thesis by (simp add: lru_OnEvict_def remove1_idem)
next
  case (Some a)
  from assms Some obtain m as where m: "lru_removeNode a l = Some (l\<lparr>lru_mem := m\<rparr>)"
    "distinct (a # lru_head l # as @ [lru_tail l])" "linked m (lru_head l # as @ [lru_tail l])"
    "map (nkey m) as = map Some (remove1 k ks)"
    "\<forall>k' a'. lru_nodes l k' = Some a' \<longleftrightarrow> a' \<in> set (a # as) \<and> nkey m a' = Some k'"
    "nkey m a = Some k" "set (a # lru_head l # as @ [lru_tail l]) \<subseteq> dom m"
    "dom m = dom (lru_mem l)" "\<forall>a \<in> dom m. a < lru_brk l"
    by (rule lru_removeNode_rep)
  let ?l = "l\<lparr>lru_mem := m, lru_nodes := (lru_nodes l)(k := None)\<rparr>"
  have "nkey m a' \<noteq> Some k" if "a' \<in> set as" for a'
  proof
    assume "nkey m a' = Some k"
    then have "lru_nodes l k = Some a'" using m(5) that by auto
    with Some that m(2) show False by auto
  qed
  then have "lru_nodes_at ?l as"
    unfolding lru_nodes_at_def using m by auto
  then have "lru_rep ?l (remove1 k ks)"
    unfolding lru_rep_def using m(4) by (intro exI [of _ as]) simp
  with Some m(1) show ?thesis by (simp add: lru_OnEvict_def)
qed

lemma lru_Evict_rep:
  assumes "lru_rep l ks"
  shows "lru_Evict l = Some (if ks = [] then None else Some (last ks), l)"
proof -
  from assms obtain as where at: "lru_nodes_at l as" "map (nkey (lru_mem l)) as = map Some ks"
    by (auto simp: lru_rep_def)
  obtain us p where p: "lru_head l # as = us @ [p]" by (metis list.discI rev_exhaust)
  then have cs: "lru_head l # as @ [lru_tail l] = us @ p # [lru_tail l]" by simp
  have "lru_tail l \<in> dom (lru_mem l)" using at(1) by (simp add: lru_nodes_at_def)
  moreover have "prv (lru_mem l) (lru_tail l) = Some p"
    using at(1) linked_append [of "lru_mem l" us p "[lru_tail l]"]
    unfolding lru_nodes_at_def cs by simp
  ultimately obtain tl where tl: "lru_mem l (lru_tail l) = Some tl" "node_prev tl = Some p"
    by (elim deref_links) auto
  show ?thesis
  proof (cases as rule: rev_cases)
    case Nil
    with p at(2) tl show ?thesis by (simp add: lru_Evict_def)
  next
    case (snoc as' a)
    with p have [simp]: "p = a" by simp
    have "a \<in> dom (lru_mem l)" "a \<noteq> lru_head l"
      using at(1) snoc by (auto simp: lru_nodes_at_def)
    moreover obtain ks' k where k: "ks = ks' @ [k]" "nkey (lru_mem l) a = Some k"
      using at(2) snoc by (cases ks rule: rev_cases) auto
    ultimately show ?thesis using tl by (auto simp: lru_Evict_def nkey_def)
  qed
qed

lemmas lru_refines = lru_OnAccess_rep lru_OnInsert_rep lru_OnEvict_rep lru_Evict_rep

interpretation lru: eviction_policy lru_policy lru_inv lru_tracked
proof unfold_locales
  fix p k t assume "lru_inv p"
  then obtain ks where ks: "lru_rep p ks" by (auto simp: lru_inv_def)
  show "\<exists>p'. OnAccess lru_policy k t p = Some p' \<and> lru_inv p' \<and> lru_tracked p' = lru_tracked p"
    using lru_OnAccess_rep [OF ks, of k t] lru_rep_tracked lru_rep_distinct [OF ks] ks
    by (fastforce simp: lru_policy_def lru_inv_def split: if_splits)
next
  fix p k e t assume "lru_inv p" "k \<notin> lru_tracked p"
  then obtain ks where ks: "lru_rep p ks" "k \<notin> set ks"
    using lru_rep_tracked by (auto simp: lru_inv_def)
  show "\<exists>p'. OnInsert lru_policy k e t p = Some p' \<and> lru_inv p' \<and>
      lru_tracked p' = insert k (lru_tracked p)"
    using lru_OnInsert_rep [OF ks, of e t] lru_rep_tracked ks
    by (fastforce simp: lru_policy_def lru_inv_def)
next
  fix p k assume "lru_inv p"
  then obtain ks where ks: "lru_rep p ks" by (auto simp: lru_inv_def)
  show "\<exists>p'. OnEvict lru_policy k p = Some p' \<and> lru_inv p' \<and> lru_tracked p' = lru_tracked p - {k}"
    using lru_OnEvict_rep [OF ks, of k] lru_rep_tracked lru_rep_distinct [OF ks] ks
    by (fastforce simp: lru_policy_def lru_inv_def)
next
  fix p assume "lru_inv p"
  then obtain ks where ks: "lru_rep p ks" by (auto simp: lru_inv_def)
  show "\<exists>v p'. Evict lru_policy p = Some (v, p') \<and> lru_inv p' \<and> lru_tracked p' = lru_tracked p \<and>
      (case v of None \<Rightarrow> lru_tracked p = {} | Some k \<Rightarrow> k \<in> lru_tracked p)"
    using lru_Evict_rep [OF ks] lru_rep_tracked [OF ks] \<open>lru_inv p\<close>
    by (simp add: lru_policy_def)
qed

end
