(* ===== verification/ContainerHeap.thy ===== *)
theory ContainerHeap
  imports Prelude
begin

text \<open>
  The part of Go's \<open>container/heap\<close> that the LFU and TTL-only eviction policies call:
  \<open>up\<close>, \<open>down\<close>, \<open>Push\<close>, \<open>Remove\<close> and \<open>Fix\<close>, over any implementation of
  \<open>heap.Interface\<close>. The interface value is a record of its five methods over a state;
  the locale \<open>heap_interface\<close> states what the package asks of the methods, and the
  correctness of the sift operations is proved once, inside it.
\<close>

section \<open>heap.Interface and the package's functions\<close>

record ('s, 'e) HeapInterface =
  hLen :: "'s \<Rightarrow> nat"
  hLess :: "'s \<Rightarrow> nat \<Rightarrow> nat \<Rightarrow> bool option"
  hSwap :: "nat \<Rightarrow> nat \<Rightarrow> 's \<Rightarrow> 's option"
  hPush :: "'e \<Rightarrow> 's \<Rightarrow> 's option"
  hPop :: "'s \<Rightarrow> 's option"

text \<open>\<open>(j - 1) / 2\<close> truncates towards zero in Go, so it is 0 for \<open>j = 0\<close>, as it is on \<^typ>\<open>nat\<close>.\<close>

definition parent :: "nat \<Rightarrow> nat" where
  "parent j = (j - 1) div 2"

lemma parent_less: "0 < j \<Longrightarrow> parent j < j"
  by (auto simp: parent_def)

lemma parent_eq_iff [simp]: "parent j = j \<longleftrightarrow> j = 0"
  by (cases "j = 0") (auto simp: parent_def dest: parent_less)

lemma parent_children [simp]: "parent (Suc (2 * i)) = i" "parent (Suc (Suc (2 * i))) = i"
  by (simp_all add: parent_def)

lemma parentD: "parent k = i \<Longrightarrow> 0 < k \<Longrightarrow> k = Suc (2 * i) \<or> k = Suc (Suc (2 * i))"
  by (auto simp: parent_def)

function up :: "('s, 'e) HeapInterface \<Rightarrow> nat \<Rightarrow> 's \<Rightarrow> 's option" where
  "up I j s =
     (let i = parent j
      in if i = j then Some s
         else case hLess I s j i of
             None \<Rightarrow> None
           | Some False \<Rightarrow> Some s
           | Some True \<Rightarrow> (case hSwap I i j s of None \<Rightarrow> None | Some s' \<Rightarrow> up I i s'))"
  by pat_completeness auto
termination
  by (relation "measure (\<lambda>(I, j, s). j)") (auto simp: parent_less)

text \<open>
  The smaller child of \<open>i\<close> among the first \<open>n\<close> elements: \<open>j1\<close>, or \<open>j2\<close> where there is one and
  it is less. \<open>down\<close> also returns the final position; Go returns whether it is beyond
  the start.
\<close>

definition down_child :: "('s, 'e) HeapInterface \<Rightarrow> nat \<Rightarrow> nat \<Rightarrow> 's \<Rightarrow> nat option" where
  "down_child I i n s =
     (let j1 = 2 * i + 1; j2 = j1 + 1
      in if j2 < n then map_option (\<lambda>less. if less then j2 else j1) (hLess I s j2 j1) else Some j1)"

lemma down_child_bounds: "down_child I i n s = Some j \<Longrightarrow> j = 2 * i + 1 \<or> j = 2 * i + 2"
  by (auto simp: down_child_def Let_def split: if_splits)

function down :: "('s, 'e) HeapInterface \<Rightarrow> nat \<Rightarrow> nat \<Rightarrow> 's \<Rightarrow> (nat \<times> 's) option" where
  "down I i n s =
     (if 2 * i + 1 \<ge> n then Some (i, s)
      else case down_child I i n s of
          None \<Rightarrow> None
        | Some j \<Rightarrow>
            (case hLess I s j i of
               None \<Rightarrow> None
             | Some False \<Rightarrow> Some (i, s)
             | Some True \<Rightarrow> (case hSwap I i j s of None \<Rightarrow> None | Some s' \<Rightarrow> down I j n s')))"
  by pat_completeness auto
termination
  by (relation "measure (\<lambda>(I, i, n, s). n - i)") (auto dest!: down_child_bounds)

declare up.simps [simp del] down.simps [simp del]

definition down_up :: "('s, 'e) HeapInterface \<Rightarrow> nat \<Rightarrow> nat \<Rightarrow> 's \<Rightarrow> 's option" where
  "down_up I i n s = (case down I i n s of None \<Rightarrow> None
     | Some (i', s') \<Rightarrow> if i' > i then Some s' else up I i s')"

definition heap_Push :: "('s, 'e) HeapInterface \<Rightarrow> 'e \<Rightarrow> 's \<Rightarrow> 's option" where
  "heap_Push I x s = do { s1 \<leftarrow> hPush I x s; up I (hLen I s1 - 1) s1 }"

text \<open>
  \<open>Remove\<close> with an index outside the heap panics: in \<open>Swap\<close>, or in \<open>Pop\<close> of an
  empty slice.
\<close>

definition heap_Remove :: "('s, 'e) HeapInterface \<Rightarrow> int \<Rightarrow> 's \<Rightarrow> 's option" where
  "heap_Remove I idx s =
     (if idx < 0 \<or> nat idx \<ge> hLen I s then None
      else let n = hLen I s - 1; i = nat idx
           in do { s1 \<leftarrow> (if n \<noteq> i then do { s0 \<leftarrow> hSwap I i n s; down_up I i n s0 } else Some s);
                   hPop I s1 })"

text \<open>
  \<open>Fix\<close> at index \<open>-1\<close> does nothing: \<open>down\<close> stops at once since \<open>2 * -1 + 1 < 0\<close>, and
  \<open>up\<close> since \<open>(-1 - 1) / 2 = -1\<close>. A smaller index panics in \<open>Less\<close>; an index beyond
  the end reaches \<open>Less\<close> in \<open>up\<close> and panics there.
\<close>

definition heap_Fix :: "('s, 'e) HeapInterface \<Rightarrow> int \<Rightarrow> 's \<Rightarrow> 's option" where
  "heap_Fix I idx s =
     (if idx = -1 then Some s else if idx < 0 then None else down_up I (nat idx) (hLen I s) s)"

section \<open>Heaps of keys in an array\<close>

definition is_heap :: "'k::linorder list \<Rightarrow> bool" where
  "is_heap xs \<longleftrightarrow> (\<forall>i. 0 < i \<and> i < length xs \<longrightarrow> xs ! parent i \<le> xs ! i)"

text \<open>
  A heap with a hole at \<open>h\<close>: every edge that does not touch \<open>h\<close> is in order, and so is
  the edge from the parent of \<open>h\<close> to each child of \<open>h\<close>. With \<open>hole_above\<close> the edge
  into \<open>h\<close> is in order too; with \<open>hole_below\<close> the edges out of \<open>h\<close> are.
\<close>

definition hole :: "nat \<Rightarrow> 'k::linorder list \<Rightarrow> bool" where
  "hole h xs \<longleftrightarrow>
     (\<forall>i. 0 < i \<and> i < length xs \<and> i \<noteq> h \<and> parent i \<noteq> h \<longrightarrow> xs ! parent i \<le> xs ! i) \<and>
     (\<forall>i. 0 < i \<and> i < length xs \<and> parent i = h \<and> 0 < h \<longrightarrow> xs ! parent h \<le> xs ! i)"

definition hole_above :: "nat \<Rightarrow> 'k::linorder list \<Rightarrow> bool" where
  "hole_above h xs \<longleftrightarrow> (0 < h \<longrightarrow> xs ! parent h \<le> xs ! h)"

definition hole_below :: "nat \<Rightarrow> 'k::linorder list \<Rightarrow> bool" where
  "hole_below h xs \<longleftrightarrow> (\<forall>i. 0 < i \<and> i < length xs \<and> parent i = h \<longrightarrow> xs ! h \<le> xs ! i)"

lemma is_heap_holeI:
  assumes "hole h xs" "hole_above h xs" "hole_below h xs"
  shows "is_heap xs"
  unfolding is_heap_def
proof (intro allI impI)
  fix i assume i: "0 < i \<and> i < length xs"
  consider "i = h" | "parent i = h" | "i \<noteq> h" "parent i \<noteq> h" by blast
  then show "xs ! parent i \<le> xs ! i"
  proof cases
    case 1 with i assms(2) show ?thesis by (simp add: hole_above_def)
  next
    case 2 with i assms(3) show ?thesis by (auto simp: hole_below_def)
  next
    case 3 with i assms(1) show ?thesis by (simp add: hole_def)
  qed
qed

lemma is_heap_root_le:
  assumes "is_heap xs" "i < length xs"
  shows "xs ! 0 \<le> xs ! i"
  using assms(2)
proof (induction i rule: less_induct)
  case (less i)
  show ?case
  proof (cases "i = 0")
    case False
    then have "parent i < i" by (simp add: parent_less)
    with less have "xs ! 0 \<le> xs ! parent i" by simp
    also from assms(1) False less.prems have "\<dots> \<le> xs ! i"
      by (simp add: is_heap_def)
    finally show ?thesis .
  qed simp
qed

lemma is_heap_Nil [simp]: "is_heap []"
  by (simp add: is_heap_def)

lemma is_heap_take:
  assumes "is_heap xs"
  shows "is_heap (take n xs)"
  unfolding is_heap_def
proof (intro allI impI)
  fix i assume i: "0 < i \<and> i < length (take n xs)"
  then have "parent i < n" using parent_less [of i] by simp
  with i assms show "take n xs ! parent i \<le> take n xs ! i" by (simp add: is_heap_def)
qed

lemma hole_below_leaf:
  assumes "length xs \<le> 2 * i + 1"
  shows "hole_below i xs"
  unfolding hole_below_def
proof (intro allI impI)
  fix k assume k: "0 < k \<and> k < length xs \<and> parent k = i"
  then have "k = Suc (2 * i) \<or> k = Suc (Suc (2 * i))" by (intro parentD) simp_all
  with k assms show "xs ! i \<le> xs ! k" by auto
qed

lemma hole_update:
  assumes "is_heap xs"
  shows "hole i (xs[i := v])"
  unfolding hole_def
proof (intro conjI allI impI)
  fix k assume "0 < k \<and> k < length (xs[i := v]) \<and> k \<noteq> i \<and> parent k \<noteq> i"
  with assms show "xs[i := v] ! parent k \<le> xs[i := v] ! k"
    by (simp add: is_heap_def)
next
  fix k assume k: "0 < k \<and> k < length (xs[i := v]) \<and> parent k = i \<and> 0 < i"
  then have "parent i < i" "i < k" using parent_less [of k] parent_less [of i] by auto
  moreover have "xs ! parent i \<le> xs ! i" "xs ! i \<le> xs ! k"
    using assms k \<open>i < k\<close> by (auto simp: is_heap_def)
  ultimately show "xs[i := v] ! parent i \<le> xs[i := v] ! k" by auto
qed

lemma hole_snoc:
  assumes "is_heap xs"
  shows "hole (length xs) (xs @ [x]) \<and> hole_below (length xs) (xs @ [x])"
proof -
  have "parent k \<noteq> length xs" if "0 < k" "k < Suc (length xs)" for k
    using parent_less [OF that(1)] that by simp
  moreover have "(xs @ [x]) ! parent k \<le> (xs @ [x]) ! k" if "0 < k" "k < length xs" for k
    using assms parent_less [OF that(1)] that by (simp add: is_heap_def nth_append)
  ultimately show ?thesis
    by (auto simp: hole_def hole_below_def less_Suc_eq)
qed

subsection \<open>One step of up\<close>

lemma up_step:
  assumes h: "hole j xs" and b: "hole_below j xs" and j: "0 < j" "j < length xs"
    and lt: "xs ! j < xs ! parent j"
  shows "hole (parent j) (swap_at (parent j) j xs) \<and> hole_below (parent j) (swap_at (parent j) j xs)"
proof -
  let ?p = "parent j" and ?ys = "swap_at (parent j) j xs"
  have pj: "?p < j" using j by (simp add: parent_less)
  have ys: "?ys ! k = (if k = j then xs ! ?p else if k = ?p then xs ! j else xs ! k)" for k
    using j pj by (simp add: nth_swap_at)
  have sib: "xs ! ?p \<le> xs ! i" if "0 < i" "i < length xs" "parent i = ?p" "i \<noteq> j" for i
    using h that pj by (metis hole_def less_irrefl)
  have gp: "xs ! parent ?p \<le> xs ! ?p" if "0 < ?p"
  proof -
    have "parent ?p < j" using pj parent_less [OF that] by simp
    then have "parent ?p \<noteq> j" by simp
    with h that pj j show ?thesis by (auto simp: hole_def)
  qed
  have ch: "xs ! ?p \<le> xs ! i" if "0 < i" "i < length xs" "parent i = j" for i
    using h that j by (simp add: hole_def)
  have "hole_below ?p ?ys"
    unfolding hole_below_def
  proof (intro allI impI)
    fix i assume i: "0 < i \<and> i < length ?ys \<and> parent i = ?p"
    then have "i \<noteq> ?p" using parent_less [of i] by auto
    with i lt sib [of i] pj show "?ys ! ?p \<le> ?ys ! i"
      by (auto simp: ys)
  qed
  moreover have "hole ?p ?ys"
    unfolding hole_def
  proof (intro conjI allI impI)
    fix i assume i: "0 < i \<and> i < length ?ys \<and> i \<noteq> ?p \<and> parent i \<noteq> ?p"
    then have "i \<noteq> j" by auto
    with i ch [of i] h show "?ys ! parent i \<le> ?ys ! i"
      by (cases "parent i = j") (auto simp: ys hole_def)
  next
    fix i assume i: "0 < i \<and> i < length ?ys \<and> parent i = ?p \<and> 0 < ?p"
    then have "parent ?p < ?p" by (simp add: parent_less)
    moreover have "i \<noteq> ?p" using i parent_less [of i] by auto
    moreover have "parent ?p \<noteq> j" "parent ?p \<noteq> ?p" using \<open>parent ?p < ?p\<close> pj by linarith+
    moreover have "xs ! parent ?p \<le> xs ! i" if "i \<noteq> j"
      using gp sib [of i] i that by (auto intro: order_trans)
    ultimately show "?ys ! parent ?p \<le> ?ys ! i"
      using gp i by (auto simp: ys)
  qed
  ultimately show ?thesis by blast
qed

subsection \<open>One step of down\<close>

lemma down_step:
  assumes h: "hole i xs" and j: "j < length xs" "0 < j" "parent j = i"
    and lt: "xs ! j < xs ! i"
    and small: "\<And>k. 0 < k \<Longrightarrow> k < length xs \<Longrightarrow> parent k = i \<Longrightarrow> xs ! j \<le> xs ! k"
  shows "hole j (swap_at i j xs) \<and> hole_above j (swap_at i j xs)"
proof -
  let ?ys = "swap_at i j xs"
  have ij: "i < j" using j parent_less [of j] by simp
  have ys: "?ys ! k = (if k = j then xs ! i else if k = i then xs ! j else xs ! k)" for k
    using j ij by (simp add: nth_swap_at)
  have grand: "xs ! j \<le> xs ! k" if "0 < k" "k < length xs" "parent k = j" for k
  proof -
    have "k \<noteq> i" "parent k \<noteq> i" using that ij parent_less [of k] by auto
    with h that show ?thesis by (auto simp: hole_def)
  qed
  have "hole_above j ?ys"
    using lt j ij by (simp add: hole_above_def ys)
  moreover have "hole j ?ys"
    unfolding hole_def
  proof (intro conjI allI impI)
    fix k assume k: "0 < k \<and> k < length ?ys \<and> k \<noteq> j \<and> parent k \<noteq> j"
    consider "k = i" | "parent k = i" | "k \<noteq> i" "parent k \<noteq> i" by blast
    then show "?ys ! parent k \<le> ?ys ! k"
    proof cases
      case 1
      then have "parent k \<noteq> i" using k parent_less [of k] by auto
      moreover have "xs ! parent i \<le> xs ! j" using h 1 k j by (auto simp: hole_def)
      ultimately show ?thesis using 1 k ij by (auto simp: ys)
    next
      case 2
      then have "k \<noteq> i" using k parent_less [of k] by auto
      with 2 k small [of k] ij show ?thesis by (auto simp: ys)
    next
      case 3
      with k h show ?thesis by (auto simp: ys hole_def)
    qed
  next
    fix k assume k: "0 < k \<and> k < length ?ys \<and> parent k = j \<and> 0 < j"
    then have "k \<noteq> i" "k \<noteq> j" using ij parent_less [of k] by auto
    with k grand [of k] j ij show "?ys ! parent j \<le> ?ys ! k"
      by (auto simp: ys)
  qed
  ultimately show ?thesis by blast
qed

section \<open>The contract of heap.Interface and the correctness of the package\<close>

text \<open>
  \<open>els\<close> is the slice behind the interface, \<open>prio\<close> the key by which \<open>Less\<close> compares, \<open>frame\<close>
  the rest of the state, which the methods leave alone, and \<open>ok\<close> the implementation's
  representation invariant. \<open>fresh x s\<close> is the condition under which \<open>x\<close> may be pushed.
\<close>

locale heap_interface =
  fixes I :: "('s, 'e) HeapInterface"
    and ok :: "'s \<Rightarrow> bool"
    and els :: "'s \<Rightarrow> 'e list"
    and prio :: "'s \<Rightarrow> 'e \<Rightarrow> 'k::linorder"
    and frame :: "'s \<Rightarrow> 'f"
    and fresh :: "'e \<Rightarrow> 's \<Rightarrow> bool"
  assumes hLen: "ok s \<Longrightarrow> hLen I s = length (els s)"
    and hLess: "ok s \<Longrightarrow> i < length (els s) \<Longrightarrow> j < length (els s) \<Longrightarrow>
      hLess I s i j = Some (prio s (els s ! i) < prio s (els s ! j))"
    and hSwap: "ok s \<Longrightarrow> i < length (els s) \<Longrightarrow> j < length (els s) \<Longrightarrow>
      \<exists>s'. hSwap I i j s = Some s' \<and> ok s' \<and> els s' = swap_at i j (els s) \<and>
        prio s' = prio s \<and> frame s' = frame s"
    and hPush: "ok s \<Longrightarrow> fresh x s \<Longrightarrow>
      \<exists>s'. hPush I x s = Some s' \<and> ok s' \<and> els s' = els s @ [x] \<and>
        prio s' = prio s \<and> frame s' = frame s"
    and hPop: "ok s \<Longrightarrow> els s \<noteq> [] \<Longrightarrow>
      \<exists>s'. hPop I s = Some s' \<and> ok s' \<and> els s' = butlast (els s) \<and>
        prio s' = prio s \<and> frame s' = frame s"
begin

text \<open>The keys of the slice, in slice order.\<close>

definition keys :: "'s \<Rightarrow> 'k list" where
  "keys s = map (prio s) (els s)"

text \<open>What every sift of the first \<open>n\<close> elements keeps.\<close>

definition sifted :: "nat \<Rightarrow> 's \<Rightarrow> 's \<Rightarrow> bool" where
  "sifted n s s' \<longleftrightarrow> ok s' \<and> mset (els s') = mset (els s) \<and> drop n (els s') = drop n (els s) \<and>
     prio s' = prio s \<and> frame s' = frame s"

lemma sifted_refl: "ok s \<Longrightarrow> sifted n s s"
  by (simp add: sifted_def)

lemma sifted_trans: "sifted n s t \<Longrightarrow> sifted n t u \<Longrightarrow> sifted n s u"
  by (simp add: sifted_def)

lemma sifted_length: "sifted n s s' \<Longrightarrow> length (els s') = length (els s)"
  unfolding sifted_def by (metis size_mset)

lemma length_keys [simp]: "length (keys s) = length (els s)"
  by (simp add: keys_def)

lemma nth_keys: "i < length (els s) \<Longrightarrow> keys s ! i = prio s (els s ! i)"
  by (simp add: keys_def)

lemma swap_sifted:
  assumes "ok s" "i < n" "j < n" "n \<le> length (els s)"
  obtains s' where "hSwap I i j s = Some s'" "sifted n s s'"
    "take n (keys s') = swap_at i j (take n (keys s))"
proof -
  from assms hSwap [of s i j] obtain s' where s': "hSwap I i j s = Some s'" "ok s'"
    "els s' = swap_at i j (els s)" "prio s' = prio s" "frame s' = frame s"
    by auto
  have "drop n (els s') = drop n (els s)"
    using assms s' by (simp add: swap_at_def drop_update_cancel)
  moreover have "take n (keys s') = swap_at i j (take n (keys s))"
    using assms s' by (simp add: keys_def map_swap_at) (simp add: swap_at_def take_update_swap)
  ultimately show thesis
    using assms s' by (intro that [of s']) (simp_all add: sifted_def)
qed

lemma up_correct:
  assumes "ok s" "j < n" "n \<le> length (els s)"
    "hole j (take n (keys s))" "hole_below j (take n (keys s))"
  shows "\<exists>s'. up I j s = Some s' \<and> sifted n s s' \<and> is_heap (take n (keys s'))"
  using assms
proof (induction j arbitrary: s rule: less_induct)
  case (less j)
  let ?xs = "take n (keys s)" and ?p = "parent j"
  note [simp] = up.simps [of I j s]
  show ?case
  proof (cases "j = 0")
    case True
    with less.prems have "is_heap ?xs"
      by (intro is_heap_holeI [of j]) (simp_all add: hole_above_def)
    with True less.prems show ?thesis by (simp add: sifted_refl parent_def up.simps [of I 0 s])
  next
    case False
    then have p: "?p < j" by (simp add: parent_less)
    have L: "hLess I s j ?p = Some (?xs ! j < ?xs ! ?p)"
      using less.prems p by (simp add: hLess nth_keys)
    show ?thesis
    proof (cases "?xs ! j < ?xs ! ?p")
      case True
      from less.prems p obtain s' where s': "hSwap I ?p j s = Some s'" "sifted n s s'"
        "take n (keys s') = swap_at ?p j ?xs"
        by (elim swap_sifted [of s ?p n j]) auto
      have "hole ?p (swap_at ?p j ?xs) \<and> hole_below ?p (swap_at ?p j ?xs)"
        using less.prems False True by (intro up_step) simp_all
      then have "\<exists>s''. up I ?p s' = Some s'' \<and> sifted n s' s'' \<and> is_heap (take n (keys s''))"
        using less.IH [of ?p s'] p less.prems s' sifted_length [OF s'(2)]
        by (simp add: sifted_def)
      with False True L s' show ?thesis
        by (auto intro: sifted_trans)
    next
      case nl: False
      then have "hole_above j ?xs" by (simp add: hole_above_def not_less)
      with less.prems have "is_heap ?xs" by (intro is_heap_holeI [of j])
      with False nl L less.prems show ?thesis by (simp add: sifted_refl)
    qed
  qed
qed

lemma down_smallest_child:
  assumes "ok s" "n \<le> length (els s)" "2 * i + 1 < n"
  obtains j where "down_child I i n s = Some j" "i < j" "j < n" "parent j = i"
    "\<And>k. 0 < k \<Longrightarrow> k < n \<Longrightarrow> parent k = i \<Longrightarrow> keys s ! j \<le> keys s ! k"
proof -
  define j where "j = (if 2 * i + 2 < n \<and> keys s ! (2 * i + 2) < keys s ! (2 * i + 1)
    then 2 * i + 2 else 2 * i + 1)"
  show thesis
  proof (rule that [of j])
    show "down_child I i n s = Some j"
      using assms by (auto simp: j_def down_child_def Let_def hLess nth_keys)
    fix k assume k: "0 < k" "k < n" "parent k = i"
    then have "k = 2 * i + 1 \<or> k = 2 * i + 2" using parentD [of k i] by simp
    with k assms show "keys s ! j \<le> keys s ! k"
      by (auto simp: j_def not_less)
  qed (use assms in \<open>auto simp: j_def\<close>)
qed

lemma down_correct:
  assumes "ok s" "i < n" "n \<le> length (els s)" "hole i (take n (keys s))"
  shows "\<exists>i' s'. down I i n s = Some (i', s') \<and> sifted n s s' \<and> i \<le> i' \<and> i' < n \<and>
     (i' = i \<longrightarrow> s' = s) \<and> (i < i' \<or> hole_above i (take n (keys s)) \<longrightarrow> hole_above i' (take n (keys s'))) \<and>
     hole i' (take n (keys s')) \<and> hole_below i' (take n (keys s'))"
  using assms
proof (induction "n - i" arbitrary: i s rule: less_induct)
  case less
  let ?xs = "take n (keys s)"
  show ?case
  proof (cases "2 * i + 1 < n")
    case False
    then have "hole_below i ?xs" by (intro hole_below_leaf) simp
    with False less.prems show ?thesis by (simp add: sifted_refl down.simps [of I i n s])
  next
    case True
    from less.prems True obtain j where c: "down_child I i n s = Some j"
      and j: "i < j" "j < n" "parent j = i"
      and small: "\<And>k. 0 < k \<Longrightarrow> k < n \<Longrightarrow> parent k = i \<Longrightarrow> keys s ! j \<le> keys s ! k"
      by (elim down_smallest_child [of s n i]) auto
    have L: "hLess I s j i = Some (?xs ! j < ?xs ! i)"
      using less.prems j by (simp add: hLess nth_keys)
    have D: "down I i n s = (case hLess I s j i of None \<Rightarrow> None | Some False \<Rightarrow> Some (i, s)
        | Some True \<Rightarrow> (case hSwap I i j s of None \<Rightarrow> None | Some s' \<Rightarrow> down I j n s'))"
      by (subst down.simps) (use True c in simp)
    show ?thesis
    proof (cases "?xs ! j < ?xs ! i")
      case lt: True
      from less.prems j obtain s1 where s1: "hSwap I i j s = Some s1" "sifted n s s1"
        "take n (keys s1) = swap_at i j ?xs"
        by (elim swap_sifted [of s i n j]) auto
      have "hole j (take n (keys s1)) \<and> hole_above j (take n (keys s1))"
        unfolding s1(3) using less.prems j lt small by (intro down_step) auto
      moreover have "n - j < n - i" using j by simp
      ultimately obtain i' s' where "down I j n s1 = Some (i', s')" "sifted n s1 s'" "j \<le> i'" "i' < n"
          "hole_above i' (take n (keys s'))" "hole i' (take n (keys s'))" "hole_below i' (take n (keys s'))"
        using less.hyps [of j s1] less.prems j(1,2) s1(2) sifted_length [OF s1(2)]
        by (auto simp: sifted_def)
      with D L lt s1 j show ?thesis by (auto intro: sifted_trans)
    next
      case False
      with less.prems j small have "hole_below i ?xs"
        unfolding hole_below_def by (auto simp: not_less intro: order_trans)
      with False L D less.prems show ?thesis by (simp add: sifted_refl)
    qed
  qed
qed

lemma down_up_correct:
  assumes "ok s" "i < n" "n \<le> length (els s)" "hole i (take n (keys s))"
  shows "\<exists>s'. down_up I i n s = Some s' \<and> sifted n s s' \<and> is_heap (take n (keys s'))"
proof -
  from down_correct [OF assms] obtain i' s' where d: "down I i n s = Some (i', s')" "sifted n s s'"
    "i \<le> i'" "i' = i \<longrightarrow> s' = s" "i < i' \<longrightarrow> hole_above i' (take n (keys s'))"
    "hole i' (take n (keys s'))" "hole_below i' (take n (keys s'))" by auto
  show ?thesis
  proof (cases "i < i'")
    case True
    with d show ?thesis by (auto simp: down_up_def intro: is_heap_holeI)
  next
    case False
    with d have "i' = i" "s' = s" by simp_all
    with d assms up_correct [of s i n] False show ?thesis by (auto simp: down_up_def)
  qed
qed

lemma heap_Fix_correct:
  assumes "ok s" "i < length (els s)" "hole i (keys s)"
  shows "\<exists>s'. heap_Fix I (int i) s = Some s' \<and> sifted (length (els s)) s s' \<and> is_heap (keys s')"
proof -
  from assms obtain s' where "down_up I i (length (els s)) s = Some s'"
    "sifted (length (els s)) s s'" "is_heap (take (length (els s)) (keys s'))"
    using down_up_correct [of s i "length (els s)"] by auto
  with assms show ?thesis
    using sifted_length by (auto simp: heap_Fix_def hLen)
qed

lemma heap_Push_correct:
  assumes "ok s" "fresh x s" "is_heap (keys s)"
  shows "\<exists>s'. heap_Push I x s = Some s' \<and> ok s' \<and> mset (els s') = add_mset x (mset (els s)) \<and>
    prio s' = prio s \<and> frame s' = frame s \<and> is_heap (keys s')"
proof -
  from hPush [OF assms(1,2)] obtain s1 where s1: "hPush I x s = Some s1" "ok s1"
    "els s1 = els s @ [x]" "prio s1 = prio s" "frame s1 = frame s" by auto
  then have "keys s1 = keys s @ [prio s x]" by (simp add: keys_def)
  then have h: "hole (length (els s)) (keys s1)" "hole_below (length (els s)) (keys s1)"
    using hole_snoc [OF assms(3), of "prio s x"] by simp_all
  obtain s' where s': "up I (length (els s)) s1 = Some s'" "sifted (length (els s1)) s1 s'"
    "is_heap (take (length (els s1)) (keys s'))"
    using up_correct [of s1 "length (els s)" "length (els s1)"] s1 h by auto
  have "heap_Push I x s = Some s'"
    using s1 s'(1) by (simp add: heap_Push_def hLen)
  moreover have "is_heap (keys s')"
    using s'(3) sifted_length [OF s'(2)] by simp
  ultimately show ?thesis
    using s1 s'(2) by (simp add: sifted_def)
qed

lemma swap_last_hole:
  assumes "ok s" "is_heap (keys s)" "i < n" "Suc n = length (els s)"
  obtains s1 where "hSwap I i n s = Some s1" "ok s1" "els s1 = swap_at i n (els s)"
    "prio s1 = prio s" "frame s1 = frame s" "hole i (take n (keys s1))"
proof -
  from assms hSwap [of s i n] obtain s1 where s1: "hSwap I i n s = Some s1" "ok s1"
    "els s1 = swap_at i n (els s)" "prio s1 = prio s" "frame s1 = frame s" by auto
  have "take n (keys s1) = (take n (keys s))[i := keys s ! n]"
    using assms s1
    by (simp add: keys_def map_swap_at) (simp add: swap_at_def take_update_swap list_update_beyond)
  moreover have "is_heap (take n (keys s))" using assms(2) by (rule is_heap_take)
  ultimately have "hole i (take n (keys s1))" by (simp add: hole_update)
  with s1 show thesis by (rule that)
qed

lemma heap_Remove_correct:
  assumes "ok s" "is_heap (keys s)" "i < length (els s)"
  shows "\<exists>s'. heap_Remove I (int i) s = Some s' \<and> ok s' \<and>
    mset (els s') = mset (els s) - {#els s ! i#} \<and>
    prio s' = prio s \<and> frame s' = frame s \<and> is_heap (keys s')"
proof -
  define n where "n = length (els s) - 1"
  have n: "Suc n = length (els s)" "i \<le> n" using assms(3) by (simp_all add: n_def)
  have "\<exists>s1. (if n \<noteq> i then do { s0 \<leftarrow> hSwap I i n s; down_up I i n s0 } else Some s) = Some s1 \<and>
      ok s1 \<and> mset (els s1) = mset (els s) \<and> els s1 ! n = els s ! i \<and>
      prio s1 = prio s \<and> frame s1 = frame s \<and> is_heap (take n (keys s1))"
  proof (cases "n = i")
    case True
    with assms show ?thesis by (auto intro: is_heap_take)
  next
    case False
    with n have i: "i < n" by simp
    from assms(1,2) i n(1) obtain s0 where s0: "hSwap I i n s = Some s0" "ok s0"
      "els s0 = swap_at i n (els s)" "prio s0 = prio s" "frame s0 = frame s"
      "hole i (take n (keys s0))" by (rule swap_last_hole)
    have len0: "length (els s0) = Suc n" using s0 n by simp
    obtain s1 where s1: "down_up I i n s0 = Some s1" "sifted n s0 s1" "is_heap (take n (keys s1))"
      using down_up_correct [of s0 i n] s0 i len0 by auto
    have "drop n (els s1) ! 0 = drop n (els s0) ! 0" using s1(2) by (simp add: sifted_def)
    then have "els s1 ! n = els s ! i"
      using s0 n i len0 sifted_length [OF s1(2)] by (simp add: nth_swap_at)
    with s0 s1 False n show ?thesis by (auto simp: sifted_def)
  qed
  then obtain s1 where s1: "(if n \<noteq> i then do { s0 \<leftarrow> hSwap I i n s; down_up I i n s0 } else Some s) = Some s1"
    "ok s1" "mset (els s1) = mset (els s)" "els s1 ! n = els s ! i"
    "prio s1 = prio s" "frame s1 = frame s" "is_heap (take n (keys s1))" by blast
  then have len1: "length (els s1) = Suc n" using n by (metis size_mset)
  then have ne: "els s1 \<noteq> []" by auto
  have snoc: "els s1 = butlast (els s1) @ [els s ! i]"
    using s1(4) len1 append_butlast_last_id [OF ne] last_conv_nth [OF ne] by simp
  from hPop [OF s1(2) ne] obtain s' where s': "hPop I s1 = Some s'" "ok s'"
    "els s' = butlast (els s1)" "prio s' = prio s1" "frame s' = frame s1" by auto
  have "keys s' = take n (keys s1)"
    using s' len1 by (simp add: keys_def butlast_conv_take take_map)
  moreover have "mset (els s') = mset (els s) - {#els s ! i#}"
    unfolding s'(3) s1(3) [symmetric] by (subst (2) snoc) simp
  moreover have "heap_Remove I (int i) s =
      do { s1 \<leftarrow> (if n \<noteq> i then do { s0 \<leftarrow> hSwap I i n s; down_up I i n s0 } else Some s); hPop I s1 }"
    unfolding heap_Remove_def Let_def using assms by (simp add: hLen n_def)
  then have "heap_Remove I (int i) s = Some s'" using s1(1) s'(1) by simp
  ultimately show ?thesis using s1 s' by simp
qed

end

end
