(* ===== verification/IndexedHeap.thy ===== *)
theory IndexedHeap
  imports ContainerHeap
begin

text \<open>
  What \<open>lfu.go\<close> and \<open>ttl.go\<close> have in common: a slice of pointers to entries that is kept as a
  heap by \<open>container/heap\<close>, entries that record their own position in the slice, and a map
  from keys to the same entries. The code writes the two copies out; here the shared
  text is a definition with the entry's fields as arguments, and its correctness is
  proved once in the locale \<open>indexed_heap\<close>, which both policies interpret.
\<close>

section \<open>The shared code\<close>

text \<open>The slice of pointers and the memory of the entries they point to.\<close>

record 'e ptrHeap =
  slots :: "addr list"
  cells :: "'e store"

definition slots_Len :: "'e ptrHeap \<Rightarrow> nat" where
  "slots_Len h = length (slots h)"

definition slots_Less :: "('e \<Rightarrow> 'e \<Rightarrow> bool) \<Rightarrow> 'e ptrHeap \<Rightarrow> nat \<Rightarrow> nat \<Rightarrow> bool option" where
  "slots_Less cmp h i j =
     (if i < length (slots h) \<and> j < length (slots h)
      then do { a \<leftarrow> cells h (slots h ! i); b \<leftarrow> cells h (slots h ! j); Some (cmp a b) }
      else None)"

definition slots_Swap :: "(int \<Rightarrow> 'e \<Rightarrow> 'e) \<Rightarrow> nat \<Rightarrow> nat \<Rightarrow> 'e ptrHeap \<Rightarrow> 'e ptrHeap option" where
  "slots_Swap set_index i j h =
     (if i < length (slots h) \<and> j < length (slots h)
      then let s = swap_at i j (slots h)
           in do { m1 \<leftarrow> modify (Some (s ! i)) (set_index (int i)) (cells h);
                   m2 \<leftarrow> modify (Some (s ! j)) (set_index (int j)) m1;
                   Some \<lparr>slots = s, cells = m2\<rparr> }
      else None)"

definition slots_Push :: "(int \<Rightarrow> 'e \<Rightarrow> 'e) \<Rightarrow> addr \<Rightarrow> 'e ptrHeap \<Rightarrow> 'e ptrHeap option" where
  "slots_Push set_index x h = do {
     m \<leftarrow> modify (Some x) (set_index (int (length (slots h)))) (cells h);
     Some \<lparr>slots = slots h @ [x], cells = m\<rparr> }"

definition slots_Pop :: "(int \<Rightarrow> 'e \<Rightarrow> 'e) \<Rightarrow> 'e ptrHeap \<Rightarrow> 'e ptrHeap option" where
  "slots_Pop set_index h =
     (if slots h = [] then None
      else do { m \<leftarrow> modify (Some (last (slots h))) (set_index (-1)) (cells h);
                Some \<lparr>slots = butlast (slots h), cells = m\<rparr> })"

text \<open>The policy struct: the heap, the key map, and the next address to allocate.\<close>

record 'e keyedHeap =
  kh_h :: "'e ptrHeap"
  kh_entries :: "string \<rightharpoonup> addr"
  kh_brk :: addr

definition keyedHeap_new :: "'e keyedHeap" where
  "keyedHeap_new = \<lparr>kh_h = \<lparr>slots = [], cells = Map.empty\<rparr>, kh_entries = Map.empty, kh_brk = 0\<rparr>"

definition keyedHeap_insert ::
  "('e ptrHeap, addr) HeapInterface \<Rightarrow> string \<Rightarrow> 'e \<Rightarrow> 'e keyedHeap \<Rightarrow> 'e keyedHeap option" where
  "keyedHeap_insert I key entry l =
     (let a = kh_brk l; h = (kh_h l)\<lparr>cells := (cells (kh_h l))(a \<mapsto> entry)\<rparr>
      in do { h' \<leftarrow> heap_Push I a h;
              Some \<lparr>kh_h = h', kh_entries = (kh_entries l)(key \<mapsto> a), kh_brk = Suc a\<rparr> })"

definition keyedHeap_remove ::
  "('e ptrHeap, addr) HeapInterface \<Rightarrow> ('e \<Rightarrow> int) \<Rightarrow> string \<Rightarrow> 'e keyedHeap \<Rightarrow> 'e keyedHeap option" where
  "keyedHeap_remove I index key l =
     (case kh_entries l key of
        None \<Rightarrow> Some l
      | Some a \<Rightarrow> do {
          e \<leftarrow> deref (cells (kh_h l)) (Some a);
          h' \<leftarrow> heap_Remove I (index e) (kh_h l);
          Some (l\<lparr>kh_h := h', kh_entries := (kh_entries l)(key := None)\<rparr>) })"

definition keyedHeap_update ::
  "('e ptrHeap, addr) HeapInterface \<Rightarrow> ('e \<Rightarrow> int) \<Rightarrow> ('e \<Rightarrow> 'e) \<Rightarrow> string \<Rightarrow> 'e keyedHeap \<Rightarrow> 'e keyedHeap option"
  where
  "keyedHeap_update I index f key l =
     (case kh_entries l key of
        None \<Rightarrow> Some l
      | Some a \<Rightarrow> do {
          m \<leftarrow> modify (Some a) f (cells (kh_h l));
          e \<leftarrow> deref m (Some a);
          h' \<leftarrow> heap_Fix I (index e) ((kh_h l)\<lparr>cells := m\<rparr>);
          Some (l\<lparr>kh_h := h'\<rparr>) })"

definition keyedHeap_top :: "('e \<Rightarrow> string) \<Rightarrow> 'e keyedHeap \<Rightarrow> (string option \<times> 'e keyedHeap) option" where
  "keyedHeap_top key_of l =
     (if slots_Len (kh_h l) = 0 then Some (None, l)
      else do { e \<leftarrow> cells (kh_h l) (slots (kh_h l) ! 0); Some (Some (key_of e), l) })"

section \<open>The contract of the entries, and that the slice implements heap.Interface\<close>

locale indexed_heap =
  fixes cmp :: "'e \<Rightarrow> 'e \<Rightarrow> bool"
    and set_index :: "int \<Rightarrow> 'e \<Rightarrow> 'e"
    and index :: "'e \<Rightarrow> int"
    and key_of :: "'e \<Rightarrow> string"
    and rank :: "'e \<Rightarrow> 'k::linorder"
    and I :: "('e ptrHeap, addr) HeapInterface"
  assumes cmp_rank: "cmp a b \<longleftrightarrow> rank a < rank b"
    and rank_set_index [simp]: "rank (set_index i e) = rank e"
    and key_set_index [simp]: "key_of (set_index i e) = key_of e"
    and index_set_index [simp]: "index (set_index i e) = i"
    and I_def: "I = \<lparr>hLen = slots_Len, hLess = slots_Less cmp, hSwap = slots_Swap set_index,
      hPush = slots_Push set_index, hPop = slots_Pop set_index\<rparr>"
begin

definition ok :: "'e ptrHeap \<Rightarrow> bool" where
  "ok h \<longleftrightarrow> distinct (slots h) \<and>
     (\<forall>i < length (slots h). \<exists>e. cells h (slots h ! i) = Some e \<and> index e = int i)"

definition prio :: "'e ptrHeap \<Rightarrow> addr \<Rightarrow> 'k" where
  "prio h a = rank (the (cells h a))"

definition names :: "'e ptrHeap \<Rightarrow> addr \<rightharpoonup> string" where
  "names h a = map_option key_of (cells h a)"

lemma okD:
  assumes "ok h" "i < length (slots h)"
  obtains e where "cells h (slots h ! i) = Some e" "index e = int i"
  using assms by (auto simp: ok_def)

lemma prio_upd: "cells h a = Some e \<Longrightarrow>
  prio \<lparr>slots = s, cells = (cells h)(a \<mapsto> set_index i e)\<rparr> = prio h"
  by (auto simp: prio_def fun_eq_iff)

lemma names_upd: "cells h a = Some e \<Longrightarrow>
  names \<lparr>slots = s, cells = (cells h)(a \<mapsto> set_index i e)\<rparr> = names h"
  by (auto simp: names_def fun_eq_iff)

lemma swap_ok:
  assumes "ok h" "i < length (slots h)" "j < length (slots h)"
  shows "\<exists>h'. slots_Swap set_index i j h = Some h' \<and> ok h' \<and> slots h' = swap_at i j (slots h) \<and>
    prio h' = prio h \<and> names h' = names h"
proof -
  let ?s = "swap_at i j (slots h)"
  obtain e1 where "cells h (slots h ! i) = Some e1" using assms(1,2) by (rule okD)
  then have cj: "cells h (?s ! j) = Some e1" using assms by (simp add: nth_swap_at)
  obtain ei where "cells h (slots h ! j) = Some ei" using assms(1,3) by (rule okD)
  then have ei: "cells h (?s ! i) = Some ei" using assms by (auto simp: nth_swap_at)
  define m1 where "m1 = (cells h)(?s ! i \<mapsto> set_index (int i) ei)"
  have "\<exists>ej. m1 (?s ! j) = Some ej" using cj by (simp add: m1_def)
  then obtain ej where ej: "m1 (?s ! j) = Some ej" by blast
  let ?h = "\<lparr>slots = ?s, cells = m1(?s ! j \<mapsto> set_index (int j) ej)\<rparr>"
  have p: "prio ?h = prio h" "names ?h = names h"
    using ei ej by (auto simp: prio_def names_def fun_eq_iff m1_def split: if_splits)
  have d: "distinct ?s" using assms by (simp add: ok_def)
  have "\<exists>e. cells ?h (?s ! k) = Some e \<and> index e = int k" if k: "k < length ?s" for k
  proof -
    have ne: "?s ! k \<noteq> ?s ! i" if "k \<noteq> i" using d k that assms by (simp add: nth_eq_iff_index_eq)
    have ne': "?s ! k \<noteq> ?s ! j" if "k \<noteq> j" using d k that assms by (simp add: nth_eq_iff_index_eq)
    consider "k = j" | "k = i" "k \<noteq> j" | "k \<noteq> i" "k \<noteq> j" by blast
    then show ?thesis
    proof cases
      case 3
      then have "?s ! k = slots h ! k" using assms by (simp add: nth_swap_at)
      with 3 ne ne' k assms(1) show ?thesis by (auto simp: m1_def ok_def)
    qed (use ne' in \<open>auto simp: m1_def\<close>)
  qed
  with d have "ok ?h" by (simp add: ok_def)
  moreover have "slots_Swap set_index i j h = Some ?h"
    using assms ei ej by (simp add: slots_Swap_def Let_def modify_def m1_def)
  ultimately show ?thesis using p by (intro exI [of _ ?h]) simp
qed

lemma push_ok:
  assumes "ok h" "x \<notin> set (slots h)" "cells h x \<noteq> None"
  shows "\<exists>h'. slots_Push set_index x h = Some h' \<and> ok h' \<and> slots h' = slots h @ [x] \<and>
    prio h' = prio h \<and> names h' = names h"
proof -
  from assms(3) obtain e where e: "cells h x = Some e" by blast
  let ?h = "\<lparr>slots = slots h @ [x], cells = (cells h)(x \<mapsto> set_index (int (length (slots h))) e)\<rparr>"
  have "slots h ! i \<noteq> x" if "i < length (slots h)" for i using assms(2) that nth_mem by blast
  then have "ok ?h" using assms by (auto simp: ok_def nth_append less_Suc_eq)
  with e show ?thesis
    by (intro exI [of _ ?h]) (simp add: slots_Push_def modify_def prio_upd names_upd)
qed

lemma pop_ok:
  assumes "ok h" "slots h \<noteq> []"
  shows "\<exists>h'. slots_Pop set_index h = Some h' \<and> ok h' \<and> slots h' = butlast (slots h) \<and>
    prio h' = prio h \<and> names h' = names h"
proof -
  let ?n = "length (slots h) - 1" and ?x = "last (slots h)"
  have x: "?x = slots h ! ?n" and n: "?n < length (slots h)" using assms(2) by (simp_all add: last_conv_nth)
  obtain e where "cells h (slots h ! ?n) = Some e" using assms(1) n by (rule okD)
  then have e: "cells h ?x = Some e" by (simp only: x)
  let ?h = "\<lparr>slots = butlast (slots h), cells = (cells h)(?x \<mapsto> set_index (-1) e)\<rparr>"
  have "slots h ! i \<noteq> ?x" if "i < ?n" for i
    using assms(1) that n by (simp add: x ok_def nth_eq_iff_index_eq)
  then have "ok ?h" using assms(1) by (auto simp: ok_def nth_butlast distinct_butlast)
  with e assms(2) show ?thesis
    by (intro exI [of _ ?h]) (simp add: slots_Pop_def modify_def prio_upd names_upd)
qed

lemma less_ok:
  assumes "ok h" "i < length (slots h)" "j < length (slots h)"
  shows "slots_Less cmp h i j = Some (prio h (slots h ! i) < prio h (slots h ! j))"
proof -
  obtain a where "cells h (slots h ! i) = Some a" using assms(1,2) by (rule okD)
  moreover obtain b where "cells h (slots h ! j) = Some b" using assms(1,3) by (rule okD)
  ultimately show ?thesis using assms by (simp add: slots_Less_def prio_def cmp_rank)
qed

end

sublocale indexed_heap \<subseteq> heap_interface I ok slots prio names
  "\<lambda>x h. x \<notin> set (slots h) \<and> cells h x \<noteq> None"
  by unfold_locales (simp_all add: I_def slots_Len_def less_ok swap_ok push_ok pop_ok)

section \<open>The policy struct as a map from keys to ranks\<close>

definition keyedHeap_ranks :: "('e \<Rightarrow> 'k) \<Rightarrow> 'e keyedHeap \<Rightarrow> string \<rightharpoonup> 'k" where
  "keyedHeap_ranks rank l k = map_option (\<lambda>a. rank (the (cells (kh_h l) a))) (kh_entries l k)"

text \<open>
  The representation invariant: entries know their position, the slice is a heap by
  rank, the map and the slice hold the same entries, and unallocated addresses are unused.
\<close>

definition keyedHeap_inv ::
  "('e \<Rightarrow> int) \<Rightarrow> ('e \<Rightarrow> string) \<Rightarrow> ('e \<Rightarrow> 'k::linorder) \<Rightarrow> 'e keyedHeap \<Rightarrow> bool" where
  "keyedHeap_inv index key_of rank l \<longleftrightarrow>
     distinct (slots (kh_h l)) \<and>
     (\<forall>i < length (slots (kh_h l)). \<exists>e. cells (kh_h l) (slots (kh_h l) ! i) = Some e \<and> index e = int i) \<and>
     is_heap (map (\<lambda>a. rank (the (cells (kh_h l) a))) (slots (kh_h l))) \<and>
     (\<forall>a \<in> dom (cells (kh_h l)). a < kh_brk l) \<and>
     (\<forall>k a. kh_entries l k = Some a \<longleftrightarrow>
        a \<in> set (slots (kh_h l)) \<and> map_option key_of (cells (kh_h l) a) = Some k)"

lemma keyedHeap_inv_new: "keyedHeap_inv index key_of rank keyedHeap_new"
  by (simp add: keyedHeap_inv_def keyedHeap_new_def)

lemma keyedHeap_ranks_new [simp]: "keyedHeap_ranks rank keyedHeap_new = Map.empty"
  by (simp add: keyedHeap_ranks_def keyedHeap_new_def fun_eq_iff)

lemma dom_keyedHeap_ranks: "dom (keyedHeap_ranks rank l) = dom (kh_entries l)"
  by (auto simp: keyedHeap_ranks_def)

context indexed_heap
begin

abbreviation kinv :: "'e keyedHeap \<Rightarrow> bool" where
  "kinv \<equiv> keyedHeap_inv index key_of rank"

abbreviation kranks :: "'e keyedHeap \<Rightarrow> string \<rightharpoonup> 'k" where
  "kranks \<equiv> keyedHeap_ranks rank"

lemma kinv_iff:
  "kinv l \<longleftrightarrow> ok (kh_h l) \<and> is_heap (keys (kh_h l)) \<and> (\<forall>a \<in> dom (names (kh_h l)). a < kh_brk l) \<and>
     (\<forall>k a. kh_entries l k = Some a \<longleftrightarrow> a \<in> set (slots (kh_h l)) \<and> names (kh_h l) a = Some k)"
proof -
  have "map (\<lambda>a. rank (the (cells h a))) (slots h) = keys h" for h
    by (simp add: keys_def prio_def fun_eq_iff)
  moreover have "dom (cells h) = dom (names h)" for h :: "'e ptrHeap"
    by (auto simp: names_def)
  ultimately show ?thesis
    by (simp add: keyedHeap_inv_def ok_def names_def)
qed

lemma kranks_prio: "kranks l k = map_option (prio (kh_h l)) (kh_entries l k)"
  by (simp add: keyedHeap_ranks_def prio_def [abs_def])

lemma ok_slotE:
  assumes "ok h" "a \<in> set (slots h)"
  obtains i e where "i < length (slots h)" "slots h ! i = a" "cells h a = Some e" "index e = int i"
proof -
  from assms(2) obtain i where i: "i < length (slots h)" "slots h ! i = a"
    by (auto simp: in_set_conv_nth)
  with assms(1) that show thesis by (auto simp: ok_def)
qed

lemma insert_correct:
  assumes "kinv l" "kh_entries l k = None" "key_of e = k"
  shows "\<exists>l'. keyedHeap_insert I k e l = Some l' \<and> kinv l' \<and> kranks l' = (kranks l)(k \<mapsto> rank e)"
proof -
  let ?a = "kh_brk l" and ?h = "kh_h l"
  let ?h1 = "?h\<lparr>cells := (cells ?h)(?a \<mapsto> e)\<rparr>"
  note inv = assms(1) [unfolded kinv_iff]
  have fresh: "names ?h ?a = None" using inv by (meson domIff less_irrefl)
  have sub: "a \<in> set (slots ?h) \<Longrightarrow> names ?h a \<noteq> None" for a
    using inv by (auto simp: names_def elim: ok_slotE)
  have na: "?a \<notin> set (slots ?h)" using fresh sub by blast
  have same: "prio ?h1 a = prio ?h a" "names ?h1 a = names ?h a" if "a \<noteq> ?a" for a
    using that by (simp_all add: prio_def names_def)
  have new: "prio ?h1 ?a = rank e" "names ?h1 ?a = Some k"
    using assms(3) by (simp_all add: prio_def names_def)
  have "slots ?h ! i \<noteq> ?a" if "i < length (slots ?h)" for i using na nth_mem [OF that] by metis
  then have "ok ?h1" using inv by (auto simp: ok_def)
  moreover have "prio ?h1 a = prio ?h a" if "a \<in> set (slots ?h)" for a
    using na that same(1) by metis
  then have "keys ?h1 = keys ?h" by (simp add: keys_def)
  ultimately obtain h' where h': "heap_Push I ?a ?h1 = Some h'" "ok h'"
    "mset (slots h') = add_mset ?a (mset (slots ?h))" "prio h' = prio ?h1" "names h' = names ?h1"
    "is_heap (keys h')"
    using heap_Push_correct [of ?h1 ?a] inv na by auto
  have set': "set (slots h') = insert ?a (set (slots ?h))"
    using arg_cong [OF h'(3), of set_mset] by simp
  let ?l = "\<lparr>kh_h = h', kh_entries = (kh_entries l)(k \<mapsto> ?a), kh_brk = Suc ?a\<rparr>"
  have ent: "kh_entries l k' = Some a \<longleftrightarrow> a \<in> set (slots ?h) \<and> names ?h a = Some k'" for k' a
    using inv by blast
  have "kh_entries ?l k' = Some a \<longleftrightarrow> a \<in> set (slots h') \<and> names h' a = Some k'" for k' a
  proof (cases "a = ?a")
    case True
    then show ?thesis using ent [of k' ?a] na new(2) by (auto simp: h'(5) set')
  next
    case False
    then show ?thesis using ent [of k' a] ent [of k a] assms(2) same(2) [of a] by (auto simp: h'(5) set')
  qed
  moreover have "\<forall>a \<in> dom (names h'). a < Suc ?a"
    using inv same(2) by (force simp: h'(5) less_Suc_eq)
  ultimately have "kinv ?l" using h' by (simp add: kinv_iff)
  moreover have "kranks ?l = (kranks l)(k \<mapsto> rank e)"
  proof
    fix k'
    have "a \<noteq> ?a" if "kh_entries l k' = Some a" for a using that ent na by blast
    then show "kranks ?l k' = ((kranks l)(k \<mapsto> rank e)) k'"
      using new(1) same(1) by (cases "kh_entries l k'") (auto simp: kranks_prio h'(4))
  qed
  ultimately show ?thesis
    using h'(1) by (intro exI [of _ ?l]) (simp add: keyedHeap_insert_def Let_def)
qed

lemma remove_correct:
  assumes "kinv l"
  shows "\<exists>l'. keyedHeap_remove I index k l = Some l' \<and> kinv l' \<and> kranks l' = (kranks l)(k := None)"
proof (cases "kh_entries l k")
  case None
  then have "(kranks l)(k := None) = kranks l" by (auto simp: kranks_prio fun_eq_iff)
  with None assms show ?thesis by (simp add: keyedHeap_remove_def)
next
  case (Some a)
  let ?h = "kh_h l"
  note inv = assms [unfolded kinv_iff]
  have ent: "kh_entries l k' = Some a' \<longleftrightarrow> a' \<in> set (slots ?h) \<and> names ?h a' = Some k'" for k' a'
    using inv by blast
  have a: "a \<in> set (slots ?h)" "names ?h a = Some k" using ent Some by simp_all
  from inv a(1) obtain i e where i: "i < length (slots ?h)" "slots ?h ! i = a"
    "cells ?h a = Some e" "index e = int i" by (blast elim: ok_slotE)
  from inv i(1,2) obtain h' where h': "heap_Remove I (int i) ?h = Some h'" "ok h'"
    "mset (slots h') = mset (slots ?h) - {#a#}" "prio h' = prio ?h" "names h' = names ?h"
    "is_heap (keys h')"
    using heap_Remove_correct [of ?h i] by auto
  have "mset (slots h') = mset (remove1 a (slots ?h))" using h'(3) by simp
  then have "set (slots h') = set (remove1 a (slots ?h))" by (rule mset_eq_setD)
  then have set': "set (slots h') = set (slots ?h) - {a}"
    using inv by (simp add: ok_def)
  let ?l = "l\<lparr>kh_h := h', kh_entries := (kh_entries l)(k := None)\<rparr>"
  have "kh_entries ?l k' = Some a' \<longleftrightarrow> a' \<in> set (slots h') \<and> names h' a' = Some k'" for k' a'
    using ent [of k' a'] ent [of k a'] Some a(2) by (auto simp: set' h'(5))
  then have "kinv ?l" using h' inv by (simp add: kinv_iff)
  moreover have "kranks ?l = (kranks l)(k := None)"
    by (auto simp: kranks_prio fun_eq_iff h'(4))
  moreover have "keyedHeap_remove I index k l = Some ?l"
    using Some i(3,4) h'(1) by (simp add: keyedHeap_remove_def)
  ultimately show ?thesis by blast
qed

lemma update_correct:
  assumes "kinv l"
    and f: "\<And>e. index (f e) = index e" "\<And>e. key_of (f e) = key_of e" "\<And>e. rank (f e) = g (rank e)"
  shows "\<exists>l'. keyedHeap_update I index f k l = Some l' \<and> kinv l' \<and>
    kranks l' = (kranks l)(k := map_option g (kranks l k))"
proof (cases "kh_entries l k")
  case None
  then have "(kranks l)(k := map_option g (kranks l k)) = kranks l"
    by (auto simp: kranks_prio fun_eq_iff)
  with None assms show ?thesis by (simp add: keyedHeap_update_def)
next
  case (Some a)
  let ?h = "kh_h l"
  note inv = assms(1) [unfolded kinv_iff]
  have ent: "kh_entries l k' = Some a' \<longleftrightarrow> a' \<in> set (slots ?h) \<and> names ?h a' = Some k'" for k' a'
    using inv by blast
  have a: "a \<in> set (slots ?h)" "names ?h a = Some k" using ent Some by simp_all
  from inv a(1) obtain i e where i: "i < length (slots ?h)" "slots ?h ! i = a"
    "cells ?h a = Some e" "index e = int i" by (blast elim: ok_slotE)
  let ?h1 = "?h\<lparr>cells := (cells ?h)(a \<mapsto> f e)\<rparr>"
  have p1: "prio ?h1 = (prio ?h)(a := g (prio ?h a))" and n1: "names ?h1 = names ?h"
    using i(3) f by (auto simp: prio_def names_def fun_eq_iff)
  have eq: "slots ?h ! j = a \<longleftrightarrow> j = i" if "j < length (slots ?h)" for j
    using inv i that by (auto simp: ok_def nth_eq_iff_index_eq)
  then have "ok ?h1" using inv i(4) f(1) by (auto simp: ok_def)
  moreover have "keys ?h1 = (keys ?h)[i := g (prio ?h a)]"
    using eq by (intro nth_equalityI) (auto simp: keys_def p1 nth_list_update)
  then have "hole i (keys ?h1)" using inv by (simp add: hole_update)
  ultimately obtain h' where h': "heap_Fix I (int i) ?h1 = Some h'" "sifted (length (slots ?h)) ?h1 h'"
    "is_heap (keys h')"
    using heap_Fix_correct [of ?h1 i] i(1) by auto
  then have s: "ok h'" "prio h' = prio ?h1" "names h' = names ?h" "set (slots h') = set (slots ?h)"
    using n1 by (auto simp: sifted_def dest: mset_eq_setD)
  let ?l = "l\<lparr>kh_h := h'\<rparr>"
  have "kinv ?l" using s h'(3) inv by (simp add: kinv_iff)
  moreover have "kranks ?l = (kranks l)(k := map_option g (kranks l k))"
  proof
    fix k'
    have "a' \<noteq> a" if "kh_entries l k' = Some a'" "k' \<noteq> k" for a' using that ent a(2) by auto
    then show "kranks ?l k' = ((kranks l)(k := map_option g (kranks l k))) k'"
      using Some by (cases "kh_entries l k'") (auto simp: kranks_prio s(2) p1)
  qed
  moreover have "keyedHeap_update I index f k l = Some ?l"
    using Some i(3,4) h'(1) f(1) by (simp add: keyedHeap_update_def modify_def)
  ultimately show ?thesis by blast
qed

lemma top_correct:
  assumes "kinv l"
  shows "\<exists>v. keyedHeap_top key_of l = Some (v, l) \<and>
    (case v of None \<Rightarrow> kranks l = Map.empty
     | Some k \<Rightarrow> \<exists>r. kranks l k = Some r \<and> (\<forall>k' r'. kranks l k' = Some r' \<longrightarrow> r \<le> r'))"
proof -
  let ?h = "kh_h l"
  note inv = assms [unfolded kinv_iff]
  have ent: "kh_entries l k' = Some a' \<longleftrightarrow> a' \<in> set (slots ?h) \<and> names ?h a' = Some k'" for k' a'
    using inv by blast
  show ?thesis
  proof (cases "slots ?h = []")
    case True
    then have "kh_entries l k = None" for k using ent [of k] by (cases "kh_entries l k") auto
    with True show ?thesis by (simp add: keyedHeap_top_def slots_Len_def kranks_prio fun_eq_iff)
  next
    case False
    then obtain e where e: "cells ?h (slots ?h ! 0) = Some e" using inv by (auto simp: ok_def)
    then have k: "kh_entries l (key_of e) = Some (slots ?h ! 0)"
      using ent False by (simp add: names_def)
    have "prio ?h (slots ?h ! 0) \<le> r'" if r': "kranks l k' = Some r'" for k' r'
    proof -
      from r' obtain a' where a': "kh_entries l k' = Some a'" "r' = prio ?h a'"
        by (auto simp: kranks_prio)
      then obtain j where j: "j < length (slots ?h)" "slots ?h ! j = a'"
        using ent by (auto simp: in_set_conv_nth)
      then have "keys ?h ! 0 \<le> keys ?h ! j" using inv by (intro is_heap_root_le) simp_all
      with j False a' show ?thesis by (simp add: nth_keys)
    qed
    with k e False show ?thesis
      by (intro exI [of _ "Some (key_of e)"]) (simp add: keyedHeap_top_def slots_Len_def kranks_prio)
  qed
qed

end

end
