(* ===== verification/LFU.thy ===== *)
theory LFU
  imports EvictionPolicy IndexedHeap "HOL-Library.Product_Lexorder"
begin

text \<open>
  \<open>src/internal/eviction/lfu.go\<close>: the least-frequently-used policy, a \<open>container/heap\<close> ordered by
  (frequency, last access). The struct is viewed as a map from each tracked key to that
  pair (\<open>lfu_view\<close>); every operation is shown to update the view as its comment says, and
  \<open>Evict\<close> to name a key whose pair is least.
\<close>

section \<open>The code\<close>

record lfuEntry =
  lfu_key :: string
  lfu_freq :: int
  lfu_accessedAt :: time
  lfu_index :: int

definition lfuHeap_Less :: "lfuEntry \<Rightarrow> lfuEntry \<Rightarrow> bool" where
  "lfuHeap_Less a b =
     (if lfu_freq a \<noteq> lfu_freq b then lfu_freq a < lfu_freq b
      else Before (lfu_accessedAt a) (lfu_accessedAt b))"

abbreviation lfu_set_index :: "int \<Rightarrow> lfuEntry \<Rightarrow> lfuEntry" where
  "lfu_set_index i e \<equiv> e\<lparr>lfu_index := i\<rparr>"

definition lfuHeap :: "(lfuEntry ptrHeap, addr) HeapInterface" where
  "lfuHeap = \<lparr>hLen = slots_Len, hLess = slots_Less lfuHeap_Less, hSwap = slots_Swap lfu_set_index,
     hPush = slots_Push lfu_set_index, hPop = slots_Pop lfu_set_index\<rparr>"

type_synonym LFU = "lfuEntry keyedHeap"

definition NewLFU :: LFU where
  "NewLFU = keyedHeap_new"

text \<open>\<open>entry.freq++\<close> and \<open>entry.accessedAt = time.Now()\<close>, then \<open>heap.Fix\<close>; the counter is an int64.\<close>

definition lfu_touch :: "time \<Rightarrow> lfuEntry \<Rightarrow> lfuEntry" where
  "lfu_touch now e = e\<lparr>lfu_freq := int64 (lfu_freq e + 1), lfu_accessedAt := now\<rparr>"

definition lfu_OnAccess :: "string \<Rightarrow> time \<Rightarrow> LFU \<Rightarrow> LFU option" where
  "lfu_OnAccess key now l = keyedHeap_update lfuHeap lfu_index (lfu_touch now) key l"

definition lfu_OnInsert :: "string \<Rightarrow> time \<Rightarrow> time \<Rightarrow> LFU \<Rightarrow> LFU option" where
  "lfu_OnInsert key expiresAt now l =
     keyedHeap_insert lfuHeap key
       \<lparr>lfu_key = key, lfu_freq = 1, lfu_accessedAt = now, lfu_index = 0\<rparr> l"

definition lfu_OnEvict :: "string \<Rightarrow> LFU \<Rightarrow> LFU option" where
  "lfu_OnEvict key l = keyedHeap_remove lfuHeap lfu_index key l"

definition lfu_Evict :: "LFU \<Rightarrow> (string option \<times> LFU) option" where
  "lfu_Evict l = keyedHeap_top lfu_key l"

definition lfu_Name :: "LFU \<Rightarrow> string" where
  "lfu_Name l = ''lfu''"

definition lfu_policy :: "LFU EvictionPolicy" where
  "lfu_policy = \<lparr>OnAccess = lfu_OnAccess, OnInsert = lfu_OnInsert, OnEvict = lfu_OnEvict,
     Evict = lfu_Evict, Name = lfu_Name\<rparr>"

section \<open>Frequencies and last accesses\<close>

definition lfu_rank :: "lfuEntry \<Rightarrow> int \<times> time" where
  "lfu_rank e = (lfu_freq e, lfu_accessedAt e)"

definition lfu_view :: "LFU \<Rightarrow> string \<rightharpoonup> int \<times> time" where
  "lfu_view l = keyedHeap_ranks lfu_rank l"

definition lfu_inv :: "LFU \<Rightarrow> bool" where
  "lfu_inv l \<longleftrightarrow> keyedHeap_inv lfu_index lfu_key lfu_rank l"

definition lfu_tracked :: "LFU \<Rightarrow> string set" where
  "lfu_tracked l = dom (lfu_view l)"

interpretation lfuh: indexed_heap lfuHeap_Less lfu_set_index lfu_index lfu_key lfu_rank lfuHeap
  by unfold_locales (auto simp: lfuHeap_Less_def lfu_rank_def lfuHeap_def less_prod_def')

lemma lfu_inv_New: "lfu_inv NewLFU"
  by (simp add: lfu_inv_def NewLFU_def keyedHeap_inv_new)

lemma lfu_view_New: "lfu_view NewLFU = Map.empty"
  by (simp add: lfu_view_def NewLFU_def)

lemma lfu_entries_view: "kh_entries l k = None \<longleftrightarrow> lfu_view l k = None"
  by (simp add: lfu_view_def keyedHeap_ranks_def)

lemma lfu_OnAccess_view:
  assumes "lfu_inv l"
  shows "\<exists>l'. lfu_OnAccess k t l = Some l' \<and> lfu_inv l' \<and>
    lfu_view l' = (lfu_view l)(k := map_option (\<lambda>(n, _). (int64 (n + 1), t)) (lfu_view l k))"
  using lfuh.update_correct [of l "lfu_touch t" "\<lambda>(n, _). (int64 (n + 1), t)" k] assms
  by (simp add: lfu_OnAccess_def lfu_inv_def lfu_view_def lfu_touch_def lfu_rank_def)

lemma lfu_OnInsert_view:
  assumes "lfu_inv l" "lfu_view l k = None"
  shows "\<exists>l'. lfu_OnInsert k e t l = Some l' \<and> lfu_inv l' \<and> lfu_view l' = (lfu_view l)(k \<mapsto> (1, t))"
  using lfuh.insert_correct [of l k "\<lparr>lfu_key = k, lfu_freq = 1, lfu_accessedAt = t, lfu_index = 0\<rparr>"] assms
  by (simp add: lfu_OnInsert_def lfu_inv_def lfu_entries_view) (simp add: lfu_view_def lfu_rank_def)

lemma lfu_OnEvict_view:
  assumes "lfu_inv l"
  shows "\<exists>l'. lfu_OnEvict k l = Some l' \<and> lfu_inv l' \<and> lfu_view l' = (lfu_view l)(k := None)"
  using lfuh.remove_correct [of l k] assms
  by (simp add: lfu_OnEvict_def lfu_inv_def lfu_view_def)

lemma lfu_Evict_view:
  assumes "lfu_inv l"
  shows "\<exists>v. lfu_Evict l = Some (v, l) \<and>
    (case v of None \<Rightarrow> lfu_view l = Map.empty
     | Some k \<Rightarrow> \<exists>r. lfu_view l k = Some r \<and> (\<forall>k' r'. lfu_view l k' = Some r' \<longrightarrow> r \<le> r'))"
  using lfuh.top_correct [of l] assms
  unfolding lfu_Evict_def lfu_inv_def lfu_view_def by blast

interpretation lfu: eviction_policy lfu_policy lfu_inv lfu_tracked
proof unfold_locales
  fix p k t assume "lfu_inv p"
  from lfu_OnAccess_view [OF this, of k t]
  show "\<exists>p'. OnAccess lfu_policy k t p = Some p' \<and> lfu_inv p' \<and> lfu_tracked p' = lfu_tracked p"
    by (auto simp: lfu_policy_def lfu_tracked_def dom_def)
next
  fix p k e t assume "lfu_inv p" "k \<notin> lfu_tracked p"
  moreover from this have "lfu_view p k = None" unfolding lfu_tracked_def domIff by blast
  ultimately show "\<exists>p'. OnInsert lfu_policy k e t p = Some p' \<and> lfu_inv p' \<and>
      lfu_tracked p' = insert k (lfu_tracked p)"
    using lfu_OnInsert_view [of p k e t] by (auto simp: lfu_policy_def lfu_tracked_def)
next
  fix p k assume "lfu_inv p"
  from lfu_OnEvict_view [OF this, of k]
  show "\<exists>p'. OnEvict lfu_policy k p = Some p' \<and> lfu_inv p' \<and> lfu_tracked p' = lfu_tracked p - {k}"
    by (auto simp: lfu_policy_def lfu_tracked_def)
next
  fix p assume inv: "lfu_inv p"
  then obtain v where "lfu_Evict p = Some (v, p)" "case v of None \<Rightarrow> lfu_view p = Map.empty
     | Some k \<Rightarrow> \<exists>r. lfu_view p k = Some r \<and> (\<forall>k' r'. lfu_view p k' = Some r' \<longrightarrow> r \<le> r')"
    using lfu_Evict_view by blast
  then show "\<exists>v p'. Evict lfu_policy p = Some (v, p') \<and> lfu_inv p' \<and> lfu_tracked p' = lfu_tracked p \<and>
      (case v of None \<Rightarrow> lfu_tracked p = {} | Some k \<Rightarrow> k \<in> lfu_tracked p)"
    using inv by (auto simp: lfu_policy_def lfu_tracked_def split: option.splits)
qed

end
