(* ===== verification/TTLOnly.thy ===== *)
theory TTLOnly
  imports EvictionPolicy IndexedHeap
begin

text \<open>
  \<open>src/internal/eviction/ttl.go\<close>: the policy that evicts the entry with the earliest expiry, a
  \<open>container/heap\<close> ordered by expiry. The struct is viewed as a map from each tracked key to
  the expiry it was inserted with (\<open>ttl_view\<close>).
\<close>

section \<open>The code\<close>

record ttlEntry =
  ttl_key :: string
  ttl_expiresAt :: time
  ttl_index :: int

definition ttlHeap_Less :: "ttlEntry \<Rightarrow> ttlEntry \<Rightarrow> bool" where
  "ttlHeap_Less a b = Before (ttl_expiresAt a) (ttl_expiresAt b)"

abbreviation ttl_set_index :: "int \<Rightarrow> ttlEntry \<Rightarrow> ttlEntry" where
  "ttl_set_index i e \<equiv> e\<lparr>ttl_index := i\<rparr>"

definition ttlHeap :: "(ttlEntry ptrHeap, addr) HeapInterface" where
  "ttlHeap = \<lparr>hLen = slots_Len, hLess = slots_Less ttlHeap_Less, hSwap = slots_Swap ttl_set_index,
     hPush = slots_Push ttl_set_index, hPop = slots_Pop ttl_set_index\<rparr>"

type_synonym TTLOnly = "ttlEntry keyedHeap"

definition NewTTLOnly :: TTLOnly where
  "NewTTLOnly = keyedHeap_new"

definition ttl_OnAccess :: "string \<Rightarrow> time \<Rightarrow> TTLOnly \<Rightarrow> TTLOnly option" where
  "ttl_OnAccess key now t = Some t"

definition ttl_OnInsert :: "string \<Rightarrow> time \<Rightarrow> time \<Rightarrow> TTLOnly \<Rightarrow> TTLOnly option" where
  "ttl_OnInsert key expiresAt now t =
     keyedHeap_insert ttlHeap key \<lparr>ttl_key = key, ttl_expiresAt = expiresAt, ttl_index = 0\<rparr> t"

definition ttl_OnEvict :: "string \<Rightarrow> TTLOnly \<Rightarrow> TTLOnly option" where
  "ttl_OnEvict key t = keyedHeap_remove ttlHeap ttl_index key t"

definition ttl_Evict :: "TTLOnly \<Rightarrow> (string option \<times> TTLOnly) option" where
  "ttl_Evict t = keyedHeap_top ttl_key t"

definition ttl_Name :: "TTLOnly \<Rightarrow> string" where
  "ttl_Name t = ''ttl''"

definition ttl_policy :: "TTLOnly EvictionPolicy" where
  "ttl_policy = \<lparr>OnAccess = ttl_OnAccess, OnInsert = ttl_OnInsert, OnEvict = ttl_OnEvict,
     Evict = ttl_Evict, Name = ttl_Name\<rparr>"

section \<open>Expiries\<close>

definition ttl_view :: "TTLOnly \<Rightarrow> string \<rightharpoonup> time" where
  "ttl_view t = keyedHeap_ranks ttl_expiresAt t"

definition ttl_inv :: "TTLOnly \<Rightarrow> bool" where
  "ttl_inv t \<longleftrightarrow> keyedHeap_inv ttl_index ttl_key ttl_expiresAt t"

definition ttl_tracked :: "TTLOnly \<Rightarrow> string set" where
  "ttl_tracked t = dom (ttl_view t)"

interpretation ttlh: indexed_heap ttlHeap_Less ttl_set_index ttl_index ttl_key ttl_expiresAt ttlHeap
  by unfold_locales (auto simp: ttlHeap_Less_def ttlHeap_def)

lemma ttl_inv_New: "ttl_inv NewTTLOnly"
  by (simp add: ttl_inv_def NewTTLOnly_def keyedHeap_inv_new)

lemma ttl_view_New: "ttl_view NewTTLOnly = Map.empty"
  by (simp add: ttl_view_def NewTTLOnly_def)

lemma ttl_entries_view: "kh_entries l k = None \<longleftrightarrow> ttl_view l k = None"
  by (simp add: ttl_view_def keyedHeap_ranks_def)

lemma ttl_OnInsert_view:
  assumes "ttl_inv l" "ttl_view l k = None"
  shows "\<exists>l'. ttl_OnInsert k e t l = Some l' \<and> ttl_inv l' \<and> ttl_view l' = (ttl_view l)(k \<mapsto> e)"
  using ttlh.insert_correct [of l k "\<lparr>ttl_key = k, ttl_expiresAt = e, ttl_index = 0\<rparr>"] assms
  by (simp add: ttl_OnInsert_def ttl_inv_def ttl_entries_view) (simp add: ttl_view_def)

lemma ttl_OnEvict_view:
  assumes "ttl_inv l"
  shows "\<exists>l'. ttl_OnEvict k l = Some l' \<and> ttl_inv l' \<and> ttl_view l' = (ttl_view l)(k := None)"
  using ttlh.remove_correct [of l k] assms
  by (simp add: ttl_OnEvict_def ttl_inv_def ttl_view_def)

lemma ttl_Evict_view:
  assumes "ttl_inv l"
  shows "\<exists>v. ttl_Evict l = Some (v, l) \<and>
    (case v of None \<Rightarrow> ttl_view l = Map.empty
     | Some k \<Rightarrow> \<exists>r. ttl_view l k = Some r \<and> (\<forall>k' r'. ttl_view l k' = Some r' \<longrightarrow> r \<le> r'))"
  using ttlh.top_correct [of l] assms
  unfolding ttl_Evict_def ttl_inv_def ttl_view_def by blast

interpretation ttl: eviction_policy ttl_policy ttl_inv ttl_tracked
proof unfold_locales
  fix p k t assume "ttl_inv p"
  then show "\<exists>p'. OnAccess ttl_policy k t p = Some p' \<and> ttl_inv p' \<and> ttl_tracked p' = ttl_tracked p"
    by (simp add: ttl_policy_def ttl_OnAccess_def)
next
  fix p k e t assume "ttl_inv p" "k \<notin> ttl_tracked p"
  moreover from this have "ttl_view p k = None" by (simp add: ttl_tracked_def domIff)
  ultimately show "\<exists>p'. OnInsert ttl_policy k e t p = Some p' \<and> ttl_inv p' \<and>
      ttl_tracked p' = insert k (ttl_tracked p)"
    using ttl_OnInsert_view [of p k e t] by (auto simp: ttl_policy_def ttl_tracked_def)
next
  fix p k assume "ttl_inv p"
  from ttl_OnEvict_view [OF this, of k]
  show "\<exists>p'. OnEvict ttl_policy k p = Some p' \<and> ttl_inv p' \<and> ttl_tracked p' = ttl_tracked p - {k}"
    by (auto simp: ttl_policy_def ttl_tracked_def)
next
  fix p assume inv: "ttl_inv p"
  then obtain v where "ttl_Evict p = Some (v, p)" "case v of None \<Rightarrow> ttl_view p = Map.empty
     | Some k \<Rightarrow> \<exists>r. ttl_view p k = Some r \<and> (\<forall>k' r'. ttl_view p k' = Some r' \<longrightarrow> r \<le> r')"
    using ttl_Evict_view by blast
  then show "\<exists>v p'. Evict ttl_policy p = Some (v, p') \<and> ttl_inv p' \<and> ttl_tracked p' = ttl_tracked p \<and>
      (case v of None \<Rightarrow> ttl_tracked p = {} | Some k \<Rightarrow> k \<in> ttl_tracked p)"
    using inv by (auto simp: ttl_policy_def ttl_tracked_def split: option.splits)
qed

end
