(* ===== verification/RandomPolicy.thy ===== *)
theory RandomPolicy
  imports EvictionPolicy
begin

text \<open>
  \<open>src/internal/eviction/random.go\<close>: the policy that evicts a random key. \<open>rand.Rand\<close> is the
  sequence of numbers it will draw; \<open>Intn n\<close> takes the next and reduces it below \<open>n\<close>,
  so every sequence of results \<open>Intn\<close> can give arises from some sequence of draws.
\<close>

section \<open>The code\<close>

record rng =
  rng_draws :: "nat \<Rightarrow> nat"
  rng_pos :: nat

definition Intn :: "nat \<Rightarrow> rng \<Rightarrow> nat \<times> rng" where
  "Intn n r = (rng_draws r (rng_pos r) mod n, r\<lparr>rng_pos := Suc (rng_pos r)\<rparr>)"

record Random =
  rnd_keys :: "string list"
  rnd_rng :: rng

definition NewRandom :: "(nat \<Rightarrow> nat) \<Rightarrow> Random" where
  "NewRandom draws = \<lparr>rnd_keys = [], rnd_rng = \<lparr>rng_draws = draws, rng_pos = 0\<rparr>\<rparr>"

definition random_OnAccess :: "string \<Rightarrow> time \<Rightarrow> Random \<Rightarrow> Random option" where
  "random_OnAccess key now r = Some r"

definition random_OnInsert :: "string \<Rightarrow> time \<Rightarrow> time \<Rightarrow> Random \<Rightarrow> Random option" where
  "random_OnInsert key expiresAt now r = Some (r\<lparr>rnd_keys := rnd_keys r @ [key]\<rparr>)"

text \<open>The loop of \<open>OnEvict\<close> from index \<open>i\<close> on: swap with the last element and truncate.\<close>

function random_evict_from :: "nat \<Rightarrow> string \<Rightarrow> string list \<Rightarrow> string list" where
  "random_evict_from i key ks =
     (if i < length ks then
        if ks ! i = key then take (length ks - 1) (ks[i := ks ! (length ks - 1)])
        else random_evict_from (Suc i) key ks
      else ks)"
  by pat_completeness auto
termination
  by (relation "measure (\<lambda>(i, key, ks). length ks - i)") auto

declare random_evict_from.simps [simp del]

definition random_OnEvict :: "string \<Rightarrow> Random \<Rightarrow> Random option" where
  "random_OnEvict key r = Some (r\<lparr>rnd_keys := random_evict_from 0 key (rnd_keys r)\<rparr>)"

definition random_Evict :: "Random \<Rightarrow> (string option \<times> Random) option" where
  "random_Evict r =
     (if length (rnd_keys r) = 0 then Some (None, r)
      else let (i, g) = Intn (length (rnd_keys r)) (rnd_rng r)
           in if i < length (rnd_keys r) then Some (Some (rnd_keys r ! i), r\<lparr>rnd_rng := g\<rparr>) else None)"

definition random_Name :: "Random \<Rightarrow> string" where
  "random_Name r = ''random''"

definition random_policy :: "Random EvictionPolicy" where
  "random_policy = \<lparr>OnAccess = random_OnAccess, OnInsert = random_OnInsert, OnEvict = random_OnEvict,
     Evict = random_Evict, Name = random_Name\<rparr>"

section \<open>The set of keys\<close>

definition random_inv :: "Random \<Rightarrow> bool" where
  "random_inv r \<longleftrightarrow> distinct (rnd_keys r)"

definition random_tracked :: "Random \<Rightarrow> string set" where
  "random_tracked r = set (rnd_keys r)"

lemma swap_truncate_mset:
  assumes "i < length ks"
  shows "mset (take (length ks - 1) (ks[i := ks ! (length ks - 1)])) = mset ks - {#ks ! i#}"
proof -
  from assms have "ks \<noteq> []" by auto
  then obtain as z where ks: "ks = as @ [z]" by (metis rev_exhaust)
  show ?thesis
  proof (cases "i < length as")
    case True
    then show ?thesis by (simp add: ks nth_append list_update_append mset_update)
  next
    case False
    with assms ks have "i = length as" by simp
    then show ?thesis by (simp add: ks)
  qed
qed

lemma random_evict_from_mset:
  "key \<notin> set (take i ks) \<Longrightarrow> mset (random_evict_from i key ks) = mset ks - {#key#}"
proof (induction i key ks rule: random_evict_from.induct)
  case (1 i key ks)
  consider "\<not> i < length ks" | "i < length ks" "ks ! i = key" | "i < length ks" "ks ! i \<noteq> key" by blast
  then show ?case
  proof cases
    case 1
    with "1.prems" show ?thesis by (simp add: random_evict_from.simps [of i] diff_single_trivial)
  next
    case 2
    then show ?thesis using swap_truncate_mset [of i ks] by (simp add: random_evict_from.simps [of i])
  next
    case 3
    with "1.IH" "1.prems" show ?thesis
      by (simp add: random_evict_from.simps [of i] take_Suc_conv_app_nth)
  qed
qed

lemma random_evict_mset: "mset (random_evict_from 0 key ks) = mset (remove1 key ks)"
  by (simp add: random_evict_from_mset)

interpretation random: eviction_policy random_policy random_inv random_tracked
proof unfold_locales
  fix p k assume "random_inv p"
  then show "\<exists>p'. OnEvict random_policy k p = Some p' \<and> random_inv p' \<and>
      random_tracked p' = random_tracked p - {k}"
    using mset_eq_setD [OF random_evict_mset [of k "rnd_keys p"]]
      mset_eq_imp_distinct_iff [OF random_evict_mset [of k "rnd_keys p"]]
    by (simp add: random_policy_def random_OnEvict_def random_inv_def random_tracked_def)
qed (auto simp: random_policy_def random_OnAccess_def random_OnInsert_def random_Evict_def
    random_inv_def random_tracked_def Intn_def)

end
