(* ===== verification/Policies.thy ===== *)
theory Policies
  imports LRU LFU TTLOnly RandomPolicy
begin

text \<open>
  The four implementations of \<open>shared.EvictionPolicy\<close> as one type: a value of the Go interface
  is one of the four structs, a method call goes to the method of that struct. The contract
  \<open>eviction_policy\<close> holds of the dispatched methods because it holds of each struct's, so what
  is proved of the cache from the contract holds for whichever policy it was given.
\<close>

datatype evictionPolicy = PolicyLRU LRU | PolicyLFU LFU | PolicyTTL TTLOnly | PolicyRandom Random

definition policy_OnAccess :: "string \<Rightarrow> time \<Rightarrow> evictionPolicy \<Rightarrow> evictionPolicy option" where
  "policy_OnAccess key now p = (case p of
     PolicyLRU l \<Rightarrow> map_option PolicyLRU (lru_OnAccess key now l)
   | PolicyLFU l \<Rightarrow> map_option PolicyLFU (lfu_OnAccess key now l)
   | PolicyTTL t \<Rightarrow> map_option PolicyTTL (ttl_OnAccess key now t)
   | PolicyRandom r \<Rightarrow> map_option PolicyRandom (random_OnAccess key now r))"

definition policy_OnInsert :: "string \<Rightarrow> time \<Rightarrow> time \<Rightarrow> evictionPolicy \<Rightarrow> evictionPolicy option" where
  "policy_OnInsert key expiresAt now p = (case p of
     PolicyLRU l \<Rightarrow> map_option PolicyLRU (lru_OnInsert key expiresAt now l)
   | PolicyLFU l \<Rightarrow> map_option PolicyLFU (lfu_OnInsert key expiresAt now l)
   | PolicyTTL t \<Rightarrow> map_option PolicyTTL (ttl_OnInsert key expiresAt now t)
   | PolicyRandom r \<Rightarrow> map_option PolicyRandom (random_OnInsert key expiresAt now r))"

definition policy_OnEvict :: "string \<Rightarrow> evictionPolicy \<Rightarrow> evictionPolicy option" where
  "policy_OnEvict key p = (case p of
     PolicyLRU l \<Rightarrow> map_option PolicyLRU (lru_OnEvict key l)
   | PolicyLFU l \<Rightarrow> map_option PolicyLFU (lfu_OnEvict key l)
   | PolicyTTL t \<Rightarrow> map_option PolicyTTL (ttl_OnEvict key t)
   | PolicyRandom r \<Rightarrow> map_option PolicyRandom (random_OnEvict key r))"

definition policy_Evict :: "evictionPolicy \<Rightarrow> (string option \<times> evictionPolicy) option" where
  "policy_Evict p = (case p of
     PolicyLRU l \<Rightarrow> map_option (map_prod id PolicyLRU) (lru_Evict l)
   | PolicyLFU l \<Rightarrow> map_option (map_prod id PolicyLFU) (lfu_Evict l)
   | PolicyTTL t \<Rightarrow> map_option (map_prod id PolicyTTL) (ttl_Evict t)
   | PolicyRandom r \<Rightarrow> map_option (map_prod id PolicyRandom) (random_Evict r))"

definition policy_Name :: "evictionPolicy \<Rightarrow> string" where
  "policy_Name p = (case p of
     PolicyLRU l \<Rightarrow> lru_Name l | PolicyLFU l \<Rightarrow> lfu_Name l
   | PolicyTTL t \<Rightarrow> ttl_Name t | PolicyRandom r \<Rightarrow> random_Name r)"

definition policies :: "evictionPolicy EvictionPolicy" where
  "policies = \<lparr>OnAccess = policy_OnAccess, OnInsert = policy_OnInsert, OnEvict = policy_OnEvict,
     Evict = policy_Evict, Name = policy_Name\<rparr>"

text \<open>
  \<open>buildEvictionPolicy\<close> of \<open>src/cmd/cachenode/main.go\<close>; \<open>draws\<close> is what the random generator
  seeded by \<open>NewRandom\<close> will draw.
\<close>

definition buildEvictionPolicy :: "(nat \<Rightarrow> nat) \<Rightarrow> string \<Rightarrow> evictionPolicy" where
  "buildEvictionPolicy draws name =
     (if name = ''lfu'' then PolicyLFU NewLFU
      else if name = ''ttl'' then PolicyTTL NewTTLOnly
      else if name = ''random'' then PolicyRandom (NewRandom draws)
      else PolicyLRU NewLRU)"

section \<open>The contract\<close>

definition policy_inv :: "evictionPolicy \<Rightarrow> bool" where
  "policy_inv p = (case p of
     PolicyLRU l \<Rightarrow> lru_inv l | PolicyLFU l \<Rightarrow> lfu_inv l
   | PolicyTTL t \<Rightarrow> ttl_inv t | PolicyRandom r \<Rightarrow> random_inv r)"

definition policy_tracked :: "evictionPolicy \<Rightarrow> string set" where
  "policy_tracked p = (case p of
     PolicyLRU l \<Rightarrow> lru_tracked l | PolicyLFU l \<Rightarrow> lfu_tracked l
   | PolicyTTL t \<Rightarrow> ttl_tracked t | PolicyRandom r \<Rightarrow> random_tracked r)"

lemmas dispatch_defs = policies_def policy_OnAccess_def policy_OnInsert_def policy_OnEvict_def
  policy_Evict_def policy_inv_def policy_tracked_def

lemmas vtable_defs = lru_policy_def lfu_policy_def ttl_policy_def random_policy_def

lemma policies_OnAccess_ok:
  assumes "policy_inv p"
  shows "\<exists>p'. OnAccess policies k t p = Some p' \<and> policy_inv p' \<and> policy_tracked p' = policy_tracked p"
proof (cases p)
  case (PolicyLRU l)
  with assms lru.OnAccess_ok [of l k t] show ?thesis by (auto simp: dispatch_defs vtable_defs)
next
  case (PolicyLFU l)
  with assms lfu.OnAccess_ok [of l k t] show ?thesis by (auto simp: dispatch_defs vtable_defs)
next
  case (PolicyTTL t')
  with assms ttl.OnAccess_ok [of t' k t] show ?thesis by (auto simp: dispatch_defs vtable_defs)
next
  case (PolicyRandom r)
  with assms random.OnAccess_ok [of r k t] show ?thesis by (auto simp: dispatch_defs vtable_defs)
qed

lemma policies_OnInsert_ok:
  assumes "policy_inv p" "k \<notin> policy_tracked p"
  shows "\<exists>p'. OnInsert policies k e t p = Some p' \<and> policy_inv p' \<and>
    policy_tracked p' = insert k (policy_tracked p)"
proof (cases p)
  case (PolicyLRU l)
  with assms lru.OnInsert_ok [of l k e t] show ?thesis by (auto simp: dispatch_defs vtable_defs)
next
  case (PolicyLFU l)
  with assms lfu.OnInsert_ok [of l k e t] show ?thesis by (auto simp: dispatch_defs vtable_defs)
next
  case (PolicyTTL t')
  with assms ttl.OnInsert_ok [of t' k e t] show ?thesis by (auto simp: dispatch_defs vtable_defs)
next
  case (PolicyRandom r)
  with assms random.OnInsert_ok [of r k e t] show ?thesis by (auto simp: dispatch_defs vtable_defs)
qed

lemma policies_OnEvict_ok:
  assumes "policy_inv p"
  shows "\<exists>p'. OnEvict policies k p = Some p' \<and> policy_inv p' \<and>
    policy_tracked p' = policy_tracked p - {k}"
proof (cases p)
  case (PolicyLRU l)
  with assms lru.OnEvict_ok [of l k] show ?thesis by (auto simp: dispatch_defs vtable_defs)
next
  case (PolicyLFU l)
  with assms lfu.OnEvict_ok [of l k] show ?thesis by (auto simp: dispatch_defs vtable_defs)
next
  case (PolicyTTL t')
  with assms ttl.OnEvict_ok [of t' k] show ?thesis by (auto simp: dispatch_defs vtable_defs)
next
  case (PolicyRandom r)
  with assms random.OnEvict_ok [of r k] show ?thesis by (auto simp: dispatch_defs vtable_defs)
qed

lemma policies_Evict_ok:
  assumes "policy_inv p"
  shows "\<exists>v p'. Evict policies p = Some (v, p') \<and> policy_inv p' \<and> policy_tracked p' = policy_tracked p \<and>
    (case v of None \<Rightarrow> policy_tracked p = {} | Some k \<Rightarrow> k \<in> policy_tracked p)"
proof (cases p)
  case (PolicyLRU l)
  with assms lru.Evict_ok [of l] show ?thesis
    by (auto simp: dispatch_defs vtable_defs cong: option.case_cong)
next
  case (PolicyLFU l)
  with assms lfu.Evict_ok [of l] show ?thesis
    by (auto simp: dispatch_defs vtable_defs cong: option.case_cong)
next
  case (PolicyTTL t')
  with assms ttl.Evict_ok [of t'] show ?thesis
    by (auto simp: dispatch_defs vtable_defs cong: option.case_cong)
next
  case (PolicyRandom r)
  with assms random.Evict_ok [of r] show ?thesis
    by (auto simp: dispatch_defs vtable_defs cong: option.case_cong)
qed

interpretation any: eviction_policy policies policy_inv policy_tracked
  by unfold_locales
    (fact policies_OnAccess_ok policies_OnInsert_ok policies_OnEvict_ok policies_Evict_ok)+

lemma buildEvictionPolicy_inv: "policy_inv (buildEvictionPolicy draws name)"
  using lru_rep_New lfu_inv_New ttl_inv_New
  by (auto simp: buildEvictionPolicy_def policy_inv_def lru_inv_def random_inv_def NewRandom_def)

lemma buildEvictionPolicy_tracked: "policy_tracked (buildEvictionPolicy draws name) = {}"
  using lru_rep_tracked [OF lru_rep_New]
  by (simp add: buildEvictionPolicy_def policy_tracked_def lfu_tracked_def lfu_view_New
      ttl_tracked_def ttl_view_New random_tracked_def NewRandom_def)

end
