(* ===== verification/Cache.thy ===== *)
theory Cache
  imports Policies
begin

text \<open>
  \<open>src/internal/cache\<close>: the in-memory cache. The Go map holds pointers to entries, so the
  entries live in a store; \<open>Get\<close> keeps such a pointer between its critical sections, and each
  section is a definition of its own (\<open>get_lookup\<close>, \<open>get_expire\<close>, \<open>get_touch\<close>).

  The operations take the method table of the eviction policy the cache was built with. What
  is proved here is proved once, in the context of the contract \<open>eviction_policy\<close>.
\<close>

section \<open>The code\<close>

record CacheEntry =
  ce_Key :: string
  ce_Value :: bytes
  ce_ExpiresAt :: time
  ce_CreatedAt :: time
  ce_AccessedAt :: time
  ce_AccessCount :: int

definition IsExpired :: "CacheEntry \<Rightarrow> time \<Rightarrow> bool" where
  "IsExpired e now \<longleftrightarrow> \<not> IsZero (ce_ExpiresAt e) \<and> After now (ce_ExpiresAt e)"

record 'p InMemoryCache =
  c_entries :: "(string, addr) mapping"
  c_mem :: "CacheEntry store"
  c_brk :: addr
  c_capacity :: int
  c_policy :: 'p

definition cache_New :: "int \<Rightarrow> 'p \<Rightarrow> 'p InMemoryCache" where
  "cache_New capacity policy =
     \<lparr>c_entries = Mapping.empty, c_mem = Map.empty, c_brk = 0, c_capacity = capacity, c_policy = policy\<rparr>"

text \<open>Lines 44 to 46: the pointer found under the read lock.\<close>

definition get_lookup :: "string \<Rightarrow> 'p InMemoryCache \<Rightarrow> addr option" where
  "get_lookup key c = Mapping.lookup (c_entries c) key"

text \<open>Lines 54 to 60: the second check, and the deletion, under the write lock.\<close>

definition get_expire :: "'p EvictionPolicy \<Rightarrow> string \<Rightarrow> time \<Rightarrow> 'p InMemoryCache \<Rightarrow> 'p InMemoryCache option" where
  "get_expire P key now c = (case Mapping.lookup (c_entries c) key of
     None \<Rightarrow> Some c
   | Some a \<Rightarrow> do {
       e \<leftarrow> deref (c_mem c) (Some a);
       if IsExpired e now then do {
         p \<leftarrow> OnEvict P key (c_policy c);
         Some (c\<lparr>c_entries := Mapping.delete key (c_entries c), c_policy := p\<rparr>)
       } else Some c })"

text \<open>Lines 65 to 69: the update of the entry the pointer leads to, whether or not it is still in the map.\<close>

definition get_touch :: "'p EvictionPolicy \<Rightarrow> string \<Rightarrow> addr \<Rightarrow> clock \<Rightarrow> 'p InMemoryCache \<Rightarrow> 'p InMemoryCache option" where
  "get_touch P key a clk c = do {
     m \<leftarrow> modify (Some a) (\<lambda>e. e\<lparr>ce_AccessedAt := clk 0, ce_AccessCount := int64 (ce_AccessCount e + 1)\<rparr>) (c_mem c);
     p \<leftarrow> OnAccess P key (clk 1) (c_policy c);
     Some (c\<lparr>c_mem := m, c_policy := p\<rparr>) }"

text \<open>
  \<open>Get\<close> without interference: the value found or none, and the cache after. The \<open>error\<close> result
  is always nil and is left out.
\<close>

definition cache_Get :: "'p EvictionPolicy \<Rightarrow> clock \<Rightarrow> string \<Rightarrow> 'p InMemoryCache \<Rightarrow>
    (bytes option \<times> 'p InMemoryCache) option" where
  "cache_Get P clk key c = (case get_lookup key c of
     None \<Rightarrow> Some (None, c)
   | Some a \<Rightarrow> do {
       e \<leftarrow> deref (c_mem c) (Some a);
       if IsExpired e (clk 0) then do { c' \<leftarrow> get_expire P key (clk 1) c; Some (None, c') }
       else do {
         c' \<leftarrow> get_touch P key a (later 1 clk) c;
         e' \<leftarrow> deref (c_mem c') (Some a);
         Some (Some (ce_Value e'), c') } })"

datatype cache_error = NegativeTTL duration | TTLExceedsMaximum duration

abbreviation maxTTL :: duration where
  "maxTTL \<equiv> 86400 * Second"

text \<open>Lines 84 to 101: the bounds on the TTL and the absolute expiry.\<close>

definition set_validate :: "duration \<Rightarrow> cache_error option" where
  "set_validate ttl = (if ttl < 0 then Some (NegativeTTL ttl)
     else if ttl > maxTTL then Some (TTLExceedsMaximum ttl) else None)"

definition set_expiry :: "duration \<Rightarrow> time \<Rightarrow> time" where
  "set_expiry ttl now = (if ttl = 0 then now else now + ttl)"

text \<open>Lines 118 to 125: make room for a new key.\<close>

definition set_evict :: "'p EvictionPolicy \<Rightarrow> 'p InMemoryCache \<Rightarrow> 'p InMemoryCache option" where
  "set_evict P c =
     (if int (Mapping.size (c_entries c)) \<ge> c_capacity c then do {
        (v, p) \<leftarrow> Evict P (c_policy c);
        (case v of
           None \<Rightarrow> Some (c\<lparr>c_policy := p\<rparr>)
         | Some evictKey \<Rightarrow> do {
             p' \<leftarrow> OnEvict P evictKey p;
             Some (c\<lparr>c_entries := Mapping.delete evictKey (c_entries c), c_policy := p'\<rparr>) })
      } else Some c)"

text \<open>Lines 103 to 139: the critical section of \<open>Set\<close>.\<close>

definition set_locked :: "'p EvictionPolicy \<Rightarrow> string \<Rightarrow> bytes \<Rightarrow> time \<Rightarrow> clock \<Rightarrow> 'p InMemoryCache \<Rightarrow>
    'p InMemoryCache option" where
  "set_locked P key value expiresAt clk c = (case Mapping.lookup (c_entries c) key of
     Some a \<Rightarrow> do {
       m \<leftarrow> modify (Some a) (\<lambda>e. e\<lparr>ce_Value := value, ce_ExpiresAt := expiresAt, ce_AccessedAt := clk 0,
              ce_AccessCount := int64 (ce_AccessCount e + 1)\<rparr>) (c_mem c);
       p \<leftarrow> OnAccess P key (clk 1) (c_policy c);
       Some (c\<lparr>c_mem := m, c_policy := p\<rparr>) }
   | None \<Rightarrow> do {
       c1 \<leftarrow> set_evict P c;
       let entry = \<lparr>ce_Key = key, ce_Value = value, ce_ExpiresAt = expiresAt, ce_CreatedAt = clk 0,
                    ce_AccessedAt = clk 0, ce_AccessCount = 1\<rparr>;
       p \<leftarrow> OnInsert P key expiresAt (clk 1) (c_policy c1);
       Some (c1\<lparr>c_entries := Mapping.update key (c_brk c1) (c_entries c1),
                c_mem := (c_mem c1)(c_brk c1 \<mapsto> entry), c_brk := Suc (c_brk c1), c_policy := p\<rparr>) })"

definition cache_Set :: "'p EvictionPolicy \<Rightarrow> clock \<Rightarrow> string \<Rightarrow> bytes \<Rightarrow> duration \<Rightarrow> 'p InMemoryCache \<Rightarrow>
    (cache_error option \<times> 'p InMemoryCache) option" where
  "cache_Set P clk key value ttl c = (case set_validate ttl of
     Some err \<Rightarrow> Some (Some err, c)
   | None \<Rightarrow> do { c' \<leftarrow> set_locked P key value (set_expiry ttl (clk 0)) clk c; Some (None, c') })"

definition cache_Delete :: "'p EvictionPolicy \<Rightarrow> string \<Rightarrow> 'p InMemoryCache \<Rightarrow> 'p InMemoryCache option" where
  "cache_Delete P key c = (case Mapping.lookup (c_entries c) key of
     None \<Rightarrow> Some c
   | Some _ \<Rightarrow> do {
       p \<leftarrow> OnEvict P key (c_policy c);
       Some (c\<lparr>c_entries := Mapping.delete key (c_entries c), c_policy := p\<rparr>) })"

definition cache_Len :: "'p InMemoryCache \<Rightarrow> nat" where
  "cache_Len c = Mapping.size (c_entries c)"

text \<open>The scan of \<open>LiveLen\<close>: the keys whose entry is not expired at the one reading of the clock.\<close>

definition live_at :: "time \<Rightarrow> 'p InMemoryCache \<Rightarrow> string \<Rightarrow> bool" where
  "live_at now c key = (case Mapping.lookup (c_entries c) key of
     None \<Rightarrow> False
   | Some a \<Rightarrow> (case c_mem c a of None \<Rightarrow> False | Some e \<Rightarrow> \<not> IsExpired e now))"

definition cache_LiveLen :: "clock \<Rightarrow> 'p InMemoryCache \<Rightarrow> nat" where
  "cache_LiveLen clk c = card (Set.filter (live_at (clk 0) c) (Mapping.keys (c_entries c)))"

section \<open>Contents and invariant\<close>

text \<open>What the cache holds: each key's value and expiry.\<close>

definition cache_view :: "'p InMemoryCache \<Rightarrow> string \<rightharpoonup> bytes \<times> time" where
  "cache_view c key = (case Mapping.lookup (c_entries c) key of
     None \<Rightarrow> None
   | Some a \<Rightarrow> map_option (\<lambda>e. (ce_Value e, ce_ExpiresAt e)) (c_mem c a))"

text \<open>
  Every pointer of the map leads to an entry for its key, the policy tracks exactly the keys
  of the map, and the map holds at most \<open>capacity\<close> entries.
\<close>

definition cache_inv :: "('p \<Rightarrow> bool) \<Rightarrow> ('p \<Rightarrow> string set) \<Rightarrow> 'p InMemoryCache \<Rightarrow> bool" where
  "cache_inv I T c \<longleftrightarrow>
     I (c_policy c) \<and> T (c_policy c) = Mapping.keys (c_entries c) \<and>
     finite (Mapping.keys (c_entries c)) \<and>
     int (Mapping.size (c_entries c)) \<le> max 1 (c_capacity c) \<and>
     (\<forall>k a. Mapping.lookup (c_entries c) k = Some a \<longrightarrow> (\<exists>e. c_mem c a = Some e \<and> ce_Key e = k)) \<and>
     (\<forall>a\<in>dom (c_mem c). a < c_brk c)"

definition expired_at :: "time \<Rightarrow> time \<Rightarrow> bool" where
  "expired_at now e \<longleftrightarrow> e \<noteq> 0 \<and> e < now"

lemma IsExpired_expired_at: "IsExpired e now = expired_at now (ce_ExpiresAt e)"
  by (simp add: IsExpired_def expired_at_def)

text \<open>The contents a lookup returns and leaves behind.\<close>

definition spec_Get :: "time \<Rightarrow> string \<Rightarrow> (string \<rightharpoonup> bytes \<times> time) \<Rightarrow> bytes option \<times> (string \<rightharpoonup> bytes \<times> time)" where
  "spec_Get now key m = (case m key of
     None \<Rightarrow> (None, m)
   | Some (v, e) \<Rightarrow> if expired_at now e then (None, m(key := None)) else (Some v, m))"

text \<open>
  The contents a write may leave behind: an existing key is overwritten; a new key enters
  after at most one victim has left, which happens exactly when the cache is full.
\<close>

definition spec_victim :: "int \<Rightarrow> (string \<rightharpoonup> bytes \<times> time) \<Rightarrow> string option \<Rightarrow> bool" where
  "spec_victim capacity m v \<longleftrightarrow> (case v of
     None \<Rightarrow> int (card (dom m)) < capacity \<or> m = Map.empty
   | Some k \<Rightarrow> capacity \<le> int (card (dom m)) \<and> k \<in> dom m)"

definition spec_drop :: "string option \<Rightarrow> (string \<rightharpoonup> bytes \<times> time) \<Rightarrow> string \<rightharpoonup> bytes \<times> time" where
  "spec_drop v m = (case v of None \<Rightarrow> m | Some k \<Rightarrow> m(k := None))"

definition spec_Set :: "int \<Rightarrow> string \<Rightarrow> bytes \<Rightarrow> time \<Rightarrow> (string \<rightharpoonup> bytes \<times> time) \<Rightarrow> (string \<rightharpoonup> bytes \<times> time) \<Rightarrow> bool" where
  "spec_Set capacity key value expiresAt m m' \<longleftrightarrow>
     (if key \<in> dom m then m' = m(key \<mapsto> (value, expiresAt))
      else \<exists>v. spec_victim capacity m v \<and> m' = (spec_drop v m)(key \<mapsto> (value, expiresAt)))"

lemma cache_inv_lookup:
  "cache_inv I T c \<Longrightarrow> Mapping.lookup (c_entries c) k = Some a \<Longrightarrow> \<exists>e. c_mem c a = Some e \<and> ce_Key e = k"
  by (simp add: cache_inv_def)

lemma cache_view_None: "cache_view c k = None \<longleftrightarrow> Mapping.lookup (c_entries c) k = None"
  if "cache_inv I T c"
  using cache_inv_lookup [OF that] by (cases "Mapping.lookup (c_entries c) k") (auto simp: cache_view_def)

lemma dom_cache_view: "dom (cache_view c) = Mapping.keys (c_entries c)" if "cache_inv I T c"
  using cache_view_None [OF that] by (auto simp: dom_def keys_lookup_iff)

lemma cache_inv_entry:
  assumes "cache_inv I T c" "Mapping.lookup (c_entries c) k = Some a"
  obtains e where "c_mem c a = Some e" "ce_Key e = k" "cache_view c k = Some (ce_Value e, ce_ExpiresAt e)"
  using cache_inv_lookup [OF assms] assms(2) by (auto simp: cache_view_def)

lemma cache_inv_inj:
  assumes "cache_inv I T c" "Mapping.lookup (c_entries c) k = Some a"
    "Mapping.lookup (c_entries c) k' = Some a"
  shows "k' = k"
  using cache_inv_lookup [OF assms(1,2)] cache_inv_lookup [OF assms(1,3)] by auto

lemma cache_inv_New:
  assumes "I p" "T p = {}"
  shows "cache_inv I T (cache_New n p)"
  using assms by (simp add: cache_inv_def cache_New_def size_mapping_card)

lemma cache_New_simps [simp]: "c_policy (cache_New n p) = p" "c_capacity (cache_New n p) = n"
  by (simp_all add: cache_New_def)

lemma cache_view_New [simp]: "cache_view (cache_New n p) = Map.empty"
  by (simp add: cache_view_def cache_New_def fun_eq_iff)

lemma cache_view_update_policy [simp]: "cache_view (c\<lparr>c_policy := p\<rparr>) = cache_view c"
  by (simp add: cache_view_def fun_eq_iff cong: option.case_cong)

lemma cache_view_delete:
  "cache_view (c\<lparr>c_entries := Mapping.delete k (c_entries c), c_policy := p\<rparr>) = (cache_view c)(k := None)"
  by (simp add: cache_view_def fun_eq_iff lookup_delete_if cong: option.case_cong)

lemma size_delete_le:
  assumes "finite (Mapping.keys m)"
  shows "Mapping.size (Mapping.delete k m) \<le> Mapping.size m"
  using assms by (simp add: size_mapping_card card_mono card_Diff1_le)

lemma cache_inv_delete:
  assumes "cache_inv I T c" "I p" "T p = T (c_policy c) - {k}"
  shows "cache_inv I T (c\<lparr>c_entries := Mapping.delete k (c_entries c), c_policy := p\<rparr>)"
  using assms size_delete_le [of "c_entries c" k]
  by (auto simp: cache_inv_def lookup_delete_if split: if_splits)

lemma cache_inv_policy:
  assumes "cache_inv I T c" "I p" "T p = T (c_policy c)"
  shows "cache_inv I T (c\<lparr>c_policy := p\<rparr>)"
  using assms by (simp add: cache_inv_def)

text \<open>Rewriting the object behind a pointer, keeping its key.\<close>

lemma cache_inv_modify:
  assumes "cache_inv I T c" "c_mem c a = Some e" "\<And>x. ce_Key (f x) = ce_Key x"
  shows "cache_inv I T (c\<lparr>c_mem := (c_mem c)(a \<mapsto> f e)\<rparr>)"
proof -
  have "\<exists>x. ((c_mem c)(a \<mapsto> f e)) b = Some x \<and> ce_Key x = k"
    if "Mapping.lookup (c_entries c) k = Some b" for k b
    using cache_inv_lookup [OF assms(1) that] assms(2,3) by (cases "b = a") auto
  moreover have "\<forall>b\<in>dom ((c_mem c)(a \<mapsto> f e)). b < c_brk c"
    using assms(1,2) by (auto simp: cache_inv_def)
  ultimately show ?thesis using assms(1) by (simp add: cache_inv_def)
qed

lemma cache_view_modify_same:
  assumes "c_mem c a = Some e" "ce_Value (f e) = ce_Value e" "ce_ExpiresAt (f e) = ce_ExpiresAt e"
  shows "cache_view (c\<lparr>c_mem := (c_mem c)(a \<mapsto> f e)\<rparr>) = cache_view c"
  using assms by (auto simp: cache_view_def fun_eq_iff split: option.splits)

lemma cache_view_modify:
  assumes "cache_inv I T c" "Mapping.lookup (c_entries c) k = Some a" "c_mem c a = Some e"
  shows "cache_view (c\<lparr>c_mem := (c_mem c)(a \<mapsto> e')\<rparr>) = (cache_view c)(k \<mapsto> (ce_Value e', ce_ExpiresAt e'))"
proof
  fix k'
  show "cache_view (c\<lparr>c_mem := (c_mem c)(a \<mapsto> e')\<rparr>) k' = ((cache_view c)(k \<mapsto> (ce_Value e', ce_ExpiresAt e'))) k'"
    using cache_inv_inj [OF assms(1,2), of k'] assms(2)
    by (cases "Mapping.lookup (c_entries c) k'") (auto simp: cache_view_def)
qed

section \<open>The operations, for any eviction policy\<close>

context eviction_policy
begin

abbreviation cinv :: "'p InMemoryCache \<Rightarrow> bool" where
  "cinv \<equiv> cache_inv inv tracked"

lemma cinvD:
  assumes "cinv c"
  shows "inv (c_policy c)" "tracked (c_policy c) = Mapping.keys (c_entries c)"
    "finite (Mapping.keys (c_entries c))" "int (Mapping.size (c_entries c)) \<le> max 1 (c_capacity c)"
  using assms by (simp_all add: cache_inv_def)

lemma drop_correct:
  assumes "cinv c"
  obtains p c' where "OnEvict P k (c_policy c) = Some p"
    "c' = c\<lparr>c_entries := Mapping.delete k (c_entries c), c_policy := p\<rparr>"
    "cinv c'" "cache_view c' = (cache_view c)(k := None)" "c_capacity c' = c_capacity c"
proof -
  obtain p where p: "OnEvict P k (c_policy c) = Some p" "inv p" "tracked p = tracked (c_policy c) - {k}"
    using OnEvict_ok [OF cinvD(1) [OF assms]] by blast
  show thesis
    by (rule that [OF p(1) refl cache_inv_delete [OF assms p(2,3)] cache_view_delete]) simp
qed

lemma get_expire_correct:
  assumes "cinv c" "cache_view c k = Some (v, e)" "expired_at now e"
  shows "\<exists>c'. get_expire P k now c = Some c' \<and> cinv c' \<and> cache_view c' = (cache_view c)(k := None) \<and>
    c_capacity c' = c_capacity c"
proof -
  obtain a where a: "Mapping.lookup (c_entries c) k = Some a"
    using assms(2) cache_view_None [OF assms(1), of k] by (cases "Mapping.lookup (c_entries c) k") simp_all
  then obtain x where x: "c_mem c a = Some x" "cache_view c k = Some (ce_Value x, ce_ExpiresAt x)"
    by (rule cache_inv_entry [OF assms(1)])
  then have "IsExpired x now" using assms(2,3) by (simp add: IsExpired_expired_at)
  obtain p c' where "OnEvict P k (c_policy c) = Some p"
    "c' = c\<lparr>c_entries := Mapping.delete k (c_entries c), c_policy := p\<rparr>"
    "cinv c'" "cache_view c' = (cache_view c)(k := None)" "c_capacity c' = c_capacity c"
    by (rule drop_correct [OF assms(1)])
  with a x(1) \<open>IsExpired x now\<close> show ?thesis by (simp add: get_expire_def)
qed

lemma get_touch_correct:
  assumes "cinv c" "c_mem c a = Some x"
  shows "\<exists>c' x'. get_touch P k a clk c = Some c' \<and> cinv c' \<and> cache_view c' = cache_view c \<and>
    c_capacity c' = c_capacity c \<and> c_entries c' = c_entries c \<and> c_mem c' = (c_mem c)(a \<mapsto> x') \<and>
    ce_Key x' = ce_Key x \<and> ce_Value x' = ce_Value x \<and> ce_ExpiresAt x' = ce_ExpiresAt x"
proof -
  let ?f = "\<lambda>e. e\<lparr>ce_AccessedAt := clk 0, ce_AccessCount := int64 (ce_AccessCount e + 1)\<rparr>"
  let ?c = "c\<lparr>c_mem := (c_mem c)(a \<mapsto> ?f x)\<rparr>"
  obtain p where p: "OnAccess P k (clk 1) (c_policy c) = Some p" "inv p" "tracked p = tracked (c_policy c)"
    using OnAccess_ok [OF cinvD(1) [OF assms(1)]] by blast
  have "cinv ?c" by (rule cache_inv_modify [OF assms]) simp
  then have "cinv (?c\<lparr>c_policy := p\<rparr>)" by (rule cache_inv_policy) (simp_all add: p)
  moreover have "cache_view ?c = cache_view c" by (rule cache_view_modify_same [OF assms(2)]) simp_all
  ultimately show ?thesis using p(1) assms(2)
    by (intro exI [of _ "?c\<lparr>c_policy := p\<rparr>"] exI [of _ "?f x"]) (simp add: get_touch_def modify_Some)
qed

lemma Get_correct:
  assumes "cinv c" "mono clk"
  shows "\<exists>c'. cache_Get P clk k c = Some (fst (spec_Get (clk 0) k (cache_view c)), c') \<and> cinv c' \<and>
    cache_view c' = snd (spec_Get (clk 0) k (cache_view c)) \<and> c_capacity c' = c_capacity c"
proof (cases "Mapping.lookup (c_entries c) k")
  case None
  then show ?thesis using assms(1) cache_view_None [OF assms(1), of k]
    by (simp add: cache_Get_def get_lookup_def spec_Get_def)
next
  case (Some a)
  then obtain x where x: "c_mem c a = Some x" "cache_view c k = Some (ce_Value x, ce_ExpiresAt x)"
    using cache_inv_entry [OF assms(1)] by metis
  show ?thesis
  proof (cases "expired_at (clk 0) (ce_ExpiresAt x)")
    case True
    moreover from this have "expired_at (clk 1) (ce_ExpiresAt x)"
      using mono_clockD [OF assms(2), of 0 1] by (simp add: expired_at_def)
    ultimately show ?thesis using get_expire_correct [OF assms(1) x(2), of "clk 1"] Some x
      by (auto simp: cache_Get_def get_lookup_def spec_Get_def IsExpired_expired_at)
  next
    case False
    with get_touch_correct [OF assms(1) x(1), of k "later 1 clk"] Some x show ?thesis
      by (auto simp: cache_Get_def get_lookup_def spec_Get_def IsExpired_expired_at)
  qed
qed

lemma set_evict_correct:
  assumes "cinv c"
  obtains c1 v where "set_evict P c = Some c1" "cinv c1" "c_capacity c1 = c_capacity c"
    "cache_view c1 = spec_drop v (cache_view c)" "spec_victim (c_capacity c) (cache_view c) v"
    "int (Mapping.size (c_entries c1)) < max 1 (c_capacity c)"
proof -
  note inv = cinvD [OF assms]
  have size: "Mapping.size (c_entries c) = card (dom (cache_view c))"
    using inv(3) by (simp add: dom_cache_view [OF assms] size_mapping_card)
  show thesis
  proof (cases "c_capacity c \<le> int (Mapping.size (c_entries c))")
    case False
    then show thesis
      using that [of c None] assms size by (simp add: set_evict_def spec_drop_def spec_victim_def)
  next
    case True
    note full = this
    from inv(1) show thesis
    proof (cases rule: Evict_cases)
      case (none p)
      then have "Mapping.keys (c_entries c) = {}" using inv(2) by simp
      with none full show thesis
        using that [of "c\<lparr>c_policy := p\<rparr>" None] cache_inv_policy [OF assms, of p] dom_cache_view [OF assms]
        by (simp add: set_evict_def spec_drop_def spec_victim_def size_mapping_card)
    next
      case (some k p)
      let ?c = "c\<lparr>c_policy := p\<rparr>"
      have "cinv ?c" using cache_inv_policy [OF assms] some by simp
      then obtain p' c1 where c1: "OnEvict P k (c_policy ?c) = Some p'"
        "c1 = ?c\<lparr>c_entries := Mapping.delete k (c_entries ?c), c_policy := p'\<rparr>"
        "cinv c1" "cache_view c1 = (cache_view ?c)(k := None)" "c_capacity c1 = c_capacity ?c"
        by (rule drop_correct)
      from some inv(2) have k: "k \<in> Mapping.keys (c_entries c)" by simp
      then have "Mapping.size (c_entries c1) < Mapping.size (c_entries c)"
        using inv(3) c1(2) card_Diff1_less [of "Mapping.keys (c_entries c)" k] by (simp add: size_mapping_card)
      then have "int (Mapping.size (c_entries c1)) < max 1 (c_capacity c)" using inv(4) by linarith
      then show thesis
        using that [of c1 "Some k"] c1 some(1) full k size dom_cache_view [OF assms]
        by (simp add: set_evict_def spec_drop_def spec_victim_def)
    qed
  qed
qed

text \<open>A fresh entry under a key the map does not hold.\<close>

lemma insert_correct:
  assumes "cinv c" "Mapping.lookup (c_entries c) k = None"
    and "int (Mapping.size (c_entries c)) < max 1 (c_capacity c)" "ce_Key x = k"
  obtains p c' where "OnInsert P k e t (c_policy c) = Some p"
    "c' = c\<lparr>c_entries := Mapping.update k (c_brk c) (c_entries c),
            c_mem := (c_mem c)(c_brk c \<mapsto> x), c_brk := Suc (c_brk c), c_policy := p\<rparr>"
    "cinv c'" "cache_view c' = (cache_view c)(k \<mapsto> (ce_Value x, ce_ExpiresAt x))"
proof -
  note inv = cinvD [OF assms(1)]
  have k: "k \<notin> Mapping.keys (c_entries c)" using assms(2) by (simp add: keys_lookup_iff)
  then obtain p where p: "OnInsert P k e t (c_policy c) = Some p" "inv p"
    "tracked p = insert k (tracked (c_policy c))"
    using OnInsert_ok [OF inv(1)] inv(2) by metis
  let ?c = "c\<lparr>c_entries := Mapping.update k (c_brk c) (c_entries c),
            c_mem := (c_mem c)(c_brk c \<mapsto> x), c_brk := Suc (c_brk c), c_policy := p\<rparr>"
  have brk: "\<forall>a\<in>dom (c_mem c). a < c_brk c" using assms(1) by (simp add: cache_inv_def)
  have old: "\<exists>y. c_mem c a = Some y \<and> ce_Key y = k' \<and> a \<noteq> c_brk c"
    if "Mapping.lookup (c_entries c) k' = Some a" for k' a
    using cache_inv_lookup [OF assms(1) that] brk by auto
  have "\<exists>y. c_mem ?c a = Some y \<and> ce_Key y = k'"
    if "Mapping.lookup (c_entries ?c) k' = Some a" for k' a
    using that old [of k' a] assms(4) by (cases "k' = k") (auto simp: Mapping.lookup_update')
  moreover have "\<forall>a\<in>dom (c_mem ?c). a < c_brk ?c" using brk by (auto intro: less_SucI)
  moreover have "int (Mapping.size (c_entries ?c)) \<le> max 1 (c_capacity ?c)"
    using assms(3) inv(3) k by (simp add: size_mapping_card)
  ultimately have "cinv ?c" using p(2,3) inv(2,3) by (simp add: cache_inv_def)
  moreover have "cache_view ?c = (cache_view c)(k \<mapsto> (ce_Value x, ce_ExpiresAt x))"
  proof
    fix k'
    show "cache_view ?c k' = ((cache_view c)(k \<mapsto> (ce_Value x, ce_ExpiresAt x))) k'"
      using old [of k'] by (cases "Mapping.lookup (c_entries c) k'")
        (auto simp: cache_view_def Mapping.lookup_update')
  qed
  ultimately show thesis using that [OF p(1) refl] by blast
qed

lemma set_locked_correct:
  assumes "cinv c"
  shows "\<exists>c'. set_locked P k value e clk c = Some c' \<and> cinv c' \<and> c_capacity c' = c_capacity c \<and>
    spec_Set (c_capacity c) k value e (cache_view c) (cache_view c')"
proof (cases "Mapping.lookup (c_entries c) k")
  case (Some a)
  then obtain x where x: "c_mem c a = Some x" "cache_view c k = Some (ce_Value x, ce_ExpiresAt x)"
    by (rule cache_inv_entry [OF assms])
  let ?f = "\<lambda>x. x\<lparr>ce_Value := value, ce_ExpiresAt := e, ce_AccessedAt := clk 0,
    ce_AccessCount := int64 (ce_AccessCount x + 1)\<rparr>"
  let ?c = "c\<lparr>c_mem := (c_mem c)(a \<mapsto> ?f x)\<rparr>"
  obtain p where p: "OnAccess P k (clk 1) (c_policy c) = Some p" "inv p" "tracked p = tracked (c_policy c)"
    using OnAccess_ok [OF cinvD(1) [OF assms]] by blast
  have "cinv ?c" by (rule cache_inv_modify [OF assms x(1)]) simp
  then have "cinv (?c\<lparr>c_policy := p\<rparr>)" by (rule cache_inv_policy) (simp_all add: p)
  moreover have "cache_view ?c = (cache_view c)(k \<mapsto> (value, e))"
    using cache_view_modify [OF assms Some x(1), of "?f x"] by simp
  ultimately show ?thesis using p(1) x Some
    by (intro exI [of _ "?c\<lparr>c_policy := p\<rparr>"]) (simp add: set_locked_def modify_Some spec_Set_def domI)
next
  case None
  obtain c1 v where c1: "set_evict P c = Some c1" "cinv c1" "c_capacity c1 = c_capacity c"
    "cache_view c1 = spec_drop v (cache_view c)" "spec_victim (c_capacity c) (cache_view c) v"
    "int (Mapping.size (c_entries c1)) < max 1 (c_capacity c)"
    by (rule set_evict_correct [OF assms])
  have k: "cache_view c k = None" using None cache_view_None [OF assms] by simp
  then have "cache_view c1 k = None" using c1(4) by (cases v) (simp_all add: spec_drop_def)
  then have fresh: "Mapping.lookup (c_entries c1) k = None" using cache_view_None [OF c1(2)] by simp
  let ?x = "\<lparr>ce_Key = k, ce_Value = value, ce_ExpiresAt = e, ce_CreatedAt = clk 0,
                    ce_AccessedAt = clk 0, ce_AccessCount = 1\<rparr>"
  obtain p c' where c': "OnInsert P k e (clk 1) (c_policy c1) = Some p"
    "c' = c1\<lparr>c_entries := Mapping.update k (c_brk c1) (c_entries c1),
            c_mem := (c_mem c1)(c_brk c1 \<mapsto> ?x), c_brk := Suc (c_brk c1), c_policy := p\<rparr>"
    "cinv c'" "cache_view c' = (cache_view c1)(k \<mapsto> (ce_Value ?x, ce_ExpiresAt ?x))"
    by (rule insert_correct [OF c1(2) fresh, of ?x e "clk 1"]) (use c1(3,6) in simp_all)
  show ?thesis using None c1 c' k
    by (intro exI [of _ c']) (auto simp: set_locked_def spec_Set_def)
qed

lemma Set_correct:
  assumes "cinv c"
  shows "\<exists>err c'. cache_Set P clk k value ttl c = Some (err, c') \<and> cinv c' \<and> c_capacity c' = c_capacity c \<and>
    err = set_validate ttl \<and>
    (if 0 \<le> ttl \<and> ttl \<le> maxTTL
     then spec_Set (c_capacity c) k value (clk 0 + ttl) (cache_view c) (cache_view c') else c' = c)"
proof (cases "0 \<le> ttl \<and> ttl \<le> maxTTL")
  case True
  then have "set_validate ttl = None" "set_expiry ttl (clk 0) = clk 0 + ttl"
    by (simp_all add: set_validate_def set_expiry_def)
  with True set_locked_correct [OF assms, of k "value" "clk 0 + ttl" clk] show ?thesis
    by (auto simp: cache_Set_def)
next
  case False
  then obtain err where "set_validate ttl = Some err" by (auto simp: set_validate_def)
  with False assms show ?thesis by (auto simp: cache_Set_def)
qed

lemma Delete_correct:
  assumes "cinv c"
  shows "\<exists>c'. cache_Delete P k c = Some c' \<and> cinv c' \<and> c_capacity c' = c_capacity c \<and>
    cache_view c' = (cache_view c)(k := None)"
proof (cases "Mapping.lookup (c_entries c) k")
  case None
  then have "(cache_view c)(k := None) = cache_view c"
    using cache_view_None [OF assms, of k] by (simp add: fun_upd_idem)
  with None assms show ?thesis by (simp add: cache_Delete_def)
next
  case (Some a)
  obtain p c' where "OnEvict P k (c_policy c) = Some p"
    "c' = c\<lparr>c_entries := Mapping.delete k (c_entries c), c_policy := p\<rparr>"
    "cinv c'" "cache_view c' = (cache_view c)(k := None)" "c_capacity c' = c_capacity c"
    by (rule drop_correct [OF assms])
  with Some show ?thesis by (simp add: cache_Delete_def)
qed

lemmas operations_correct = Get_correct Set_correct Delete_correct

end

end
