(* ===== verification/CachePolicies.thy ===== *)
theory CachePolicies
  imports Cache
begin

text \<open>
  The in-memory cache with the policies of \<open>src/internal/eviction\<close>: runs of operations, the
  round trip from \<open>Set\<close> to \<open>Get\<close>, and which entry each policy makes the cache give up. The
  cache with LRU is shown to implement a list-based reference cache.
\<close>

section \<open>Runs\<close>

datatype cacheOp = OpGet clock string | OpSet clock string bytes duration | OpDelete string

datatype cacheResult = Got "bytes option" | SetReturned "cache_error option" | Deleted

definition apply_op :: "'p EvictionPolicy \<Rightarrow> cacheOp \<Rightarrow> 'p InMemoryCache \<Rightarrow> (cacheResult \<times> 'p InMemoryCache) option" where
  "apply_op P op c = (case op of
     OpGet clk key \<Rightarrow> map_option (map_prod Got id) (cache_Get P clk key c)
   | OpSet clk key value ttl \<Rightarrow> map_option (map_prod SetReturned id) (cache_Set P clk key value ttl c)
   | OpDelete key \<Rightarrow> map_option (Pair Deleted) (cache_Delete P key c))"

primrec run_ops :: "'p EvictionPolicy \<Rightarrow> cacheOp list \<Rightarrow> 'p InMemoryCache \<Rightarrow> (cacheResult list \<times> 'p InMemoryCache) option" where
  "run_ops P [] c = Some ([], c)"
| "run_ops P (op # ops) c = do {
     (r, c1) \<leftarrow> apply_op P op c;
     (rs, c2) \<leftarrow> run_ops P ops c1;
     Some (r # rs, c2) }"

definition op_clock_ok :: "cacheOp \<Rightarrow> bool" where
  "op_clock_ok op \<longleftrightarrow> (case op of OpGet clk _ \<Rightarrow> mono clk | _ \<Rightarrow> True)"

context eviction_policy
begin

lemma apply_op_correct:
  assumes "cinv c" "op_clock_ok op"
  shows "\<exists>r c'. apply_op P op c = Some (r, c') \<and> cinv c' \<and> c_capacity c' = c_capacity c"
proof (cases op)
  case (OpGet clk k)
  with assms Get_correct [of c clk k] show ?thesis by (auto simp: apply_op_def op_clock_ok_def)
next
  case (OpSet clk k v ttl)
  with Set_correct [OF assms(1), of clk k v ttl] show ?thesis by (auto simp: apply_op_def)
next
  case (OpDelete k)
  with Delete_correct [OF assms(1), of k] show ?thesis by (auto simp: apply_op_def)
qed

lemma run_ops_correct:
  assumes "cinv c" "list_all op_clock_ok ops"
  shows "\<exists>rs c'. run_ops P ops c = Some (rs, c') \<and> cinv c' \<and> c_capacity c' = c_capacity c"
  using assms
proof (induction ops arbitrary: c)
  case (Cons op ops)
  then obtain r c1 where "apply_op P op c = Some (r, c1)" "cinv c1" "c_capacity c1 = c_capacity c"
    using apply_op_correct [of c op] by auto
  moreover from this Cons obtain rs c2 where
    "run_ops P ops c1 = Some (rs, c2)" "cinv c2" "c_capacity c2 = c_capacity c1"
    using Cons.IH [of c1] by auto
  ultimately show ?case by simp
qed simp

lemma spec_Set_same: "spec_Set cap k v e m m' \<Longrightarrow> m' k = Some (v, e)"
  by (auto simp: spec_Set_def split: if_splits)

text \<open>A value written is read back by a lookup no later than its expiry, and not after.\<close>

lemma Set_Get:
  assumes "cinv c" "0 \<le> ttl" "ttl \<le> maxTTL" "mono clk'"
  shows "\<exists>c1 c2. cache_Set P clk k v ttl c = Some (None, c1) \<and>
    cache_Get P clk' k c1 = Some (if expired_at (clk' 0) (clk 0 + ttl) then None else Some v, c2)"
proof -
  from assms(2,3) have "set_validate ttl = None" by (simp add: set_validate_def)
  then obtain c1 where c1: "cache_Set P clk k v ttl c = Some (None, c1)" "cinv c1"
    "spec_Set (c_capacity c) k v (clk 0 + ttl) (cache_view c) (cache_view c1)"
    using Set_correct [OF assms(1), of clk k v ttl] assms(2,3) by auto
  from spec_Set_same [OF c1(3)] have "spec_Get (clk' 0) k (cache_view c1) =
     (if expired_at (clk' 0) (clk 0 + ttl) then (None, (cache_view c1)(k := None)) else (Some v, cache_view c1))"
    by (simp add: spec_Get_def)
  with Get_correct [OF c1(2) assms(4), of k] c1(1) show ?thesis by auto
qed

text \<open>The key a full cache gives up is the one its policy names.\<close>

lemma set_locked_victim:
  assumes "cinv c" "cache_view c k = None" "c_capacity c \<le> int (cache_Len c)"
    "Evict P (c_policy c) = Some (Some victim, p)"
  shows "\<exists>c' p1. set_locked P k v e clk c = Some c' \<and>
    cache_view c' = ((cache_view c)(victim := None))(k \<mapsto> (v, e)) \<and>
    OnEvict P victim p = Some p1 \<and> OnInsert P k e (clk 1) p1 = Some (c_policy c')"
proof -
  let ?c = "c\<lparr>c_policy := p\<rparr>"
  from assms(4) Evict_ok [OF cinvD(1) [OF assms(1)]] have "inv p" "tracked p = tracked (c_policy c)" by auto
  then have "cinv ?c" by (rule cache_inv_policy [OF assms(1)])
  then obtain p1 c1 where c1: "OnEvict P victim (c_policy ?c) = Some p1"
    "c1 = ?c\<lparr>c_entries := Mapping.delete victim (c_entries ?c), c_policy := p1\<rparr>"
    "cinv c1" "cache_view c1 = (cache_view ?c)(victim := None)" "c_capacity c1 = c_capacity ?c"
    by (rule drop_correct)
  have evict: "set_evict P c = Some c1" using assms(3,4) c1(1,2) by (simp add: set_evict_def cache_Len_def)
  have lookup: "Mapping.lookup (c_entries c) k = None" using assms(1,2) cache_view_None by blast
  obtain c' where c': "set_locked P k v e clk c = Some c'" "cinv c'" using set_locked_correct [OF assms(1)] by blast
  from c'(1) evict lookup obtain p2 where p2: "OnInsert P k e (clk 1) (c_policy c1) = Some p2" "c_policy c' = p2"
    "c_entries c' = Mapping.update k (c_brk c1) (c_entries c1)"
    "c_mem c' = (c_mem c1)(c_brk c1 \<mapsto> \<lparr>ce_Key = k, ce_Value = v, ce_ExpiresAt = e, ce_CreatedAt = clk 0,
      ce_AccessedAt = clk 0, ce_AccessCount = 1\<rparr>)"
    by (auto simp: set_locked_def split: bind_splits)
  have "a \<noteq> c_brk c1" if "Mapping.lookup (c_entries c1) k' = Some a" for k' a
    using cache_inv_lookup [OF c1(3) that] c1(3) by (auto simp: cache_inv_def)
  then have "cache_view c' = (cache_view c1)(k \<mapsto> (v, e))"
    using p2(3,4) by (auto simp: cache_view_def fun_eq_iff Mapping.lookup_update' split: option.splits)
  with c1(1,2,4) p2 c'(1) show ?thesis by auto
qed

text \<open>What the other calls tell the policy.\<close>

lemma Get_policy:
  assumes "cinv c" "mono clk" "cache_Get P clk k c = Some (r, c')"
  shows "case cache_view c k of
      None \<Rightarrow> c_policy c' = c_policy c
    | Some (v, e) \<Rightarrow> if expired_at (clk 0) e then OnEvict P k (c_policy c) = Some (c_policy c')
                   else OnAccess P k (clk 2) (c_policy c) = Some (c_policy c')"
proof (cases "Mapping.lookup (c_entries c) k")
  case None
  then show ?thesis using assms(3) by (simp add: cache_view_def cache_Get_def get_lookup_def)
next
  case (Some a)
  then obtain x where x: "c_mem c a = Some x" "cache_view c k = Some (ce_Value x, ce_ExpiresAt x)"
    by (rule cache_inv_entry [OF assms(1)])
  have "expired_at (clk 1) (ce_ExpiresAt x)" if "expired_at (clk 0) (ce_ExpiresAt x)"
    using mono_clockD [OF assms(2), of 0 1] that by (simp add: expired_at_def)
  with Some x assms(3) show ?thesis
    by (auto simp: cache_Get_def get_lookup_def get_expire_def get_touch_def IsExpired_expired_at
        numeral_2_eq_2 split: bind_splits if_splits)
qed

lemma set_locked_policy:
  assumes "cinv c" "set_locked P k v e clk c = Some c'"
  shows "k \<in> dom (cache_view c) \<Longrightarrow> OnAccess P k (clk 1) (c_policy c) = Some (c_policy c')"
    and "k \<notin> dom (cache_view c) \<Longrightarrow> int (cache_Len c) < c_capacity c \<Longrightarrow>
      OnInsert P k e (clk 1) (c_policy c) = Some (c_policy c')"
  using assms(2) cache_view_None [OF assms(1), of k]
  by (auto simp: set_locked_def set_evict_def cache_Len_def domIff split: bind_splits option.splits)

lemma Delete_policy:
  assumes "cinv c" "cache_Delete P k c = Some c'"
  shows "if k \<in> dom (cache_view c) then OnEvict P k (c_policy c) = Some (c_policy c')
    else c_policy c' = c_policy c"
  using assms(2) cache_view_None [OF assms(1), of k]
  by (auto simp: cache_Delete_def domIff split: bind_splits option.splits)

lemma cache_Len_card: "cinv c \<Longrightarrow> cache_Len c = card (dom (cache_view c))"
  using cinvD(3) by (simp add: cache_Len_def dom_cache_view size_mapping_card)

end

section \<open>The cache with LRU and its reference\<close>

text \<open>
  The reference keeps the keys in order of use, most recent first, beside the contents. A
  lookup that hits and a write move the key to the front; a full reference forgets the key at
  the end.
\<close>

type_synonym lruRef = "string list \<times> (string \<rightharpoonup> bytes \<times> time)"

definition ref_Get :: "time \<Rightarrow> string \<Rightarrow> lruRef \<Rightarrow> bytes option \<times> lruRef" where
  "ref_Get now k = (\<lambda>(ks, m). case m k of
     None \<Rightarrow> (None, ks, m)
   | Some (v, e) \<Rightarrow> if expired_at now e then (None, remove1 k ks, m(k := None))
                  else (Some v, k # remove1 k ks, m))"

definition ref_Set :: "int \<Rightarrow> string \<Rightarrow> bytes \<Rightarrow> time \<Rightarrow> lruRef \<Rightarrow> lruRef" where
  "ref_Set cap k v e = (\<lambda>(ks, m).
     if k \<in> set ks then (k # remove1 k ks, m(k \<mapsto> (v, e)))
     else if cap \<le> int (length ks) \<and> ks \<noteq> [] then (k # butlast ks, m(last ks := None, k \<mapsto> (v, e)))
     else (k # ks, m(k \<mapsto> (v, e))))"

definition ref_Delete :: "string \<Rightarrow> lruRef \<Rightarrow> lruRef" where
  "ref_Delete k = (\<lambda>(ks, m). (remove1 k ks, m(k := None)))"

definition lru_cache_rel :: "evictionPolicy InMemoryCache \<Rightarrow> lruRef \<Rightarrow> bool" where
  "lru_cache_rel c = (\<lambda>(ks, m). cache_inv policy_inv policy_tracked c \<and> cache_view c = m \<and>
     (\<exists>l. c_policy c = PolicyLRU l \<and> lru_rep l ks))"

lemma lru_cache_relD:
  assumes "lru_cache_rel c (ks, m)"
  obtains l where "cache_inv policy_inv policy_tracked c" "cache_view c = m" "c_policy c = PolicyLRU l"
    "lru_rep l ks" "set ks = dom m" "distinct ks" "cache_Len c = length ks"
proof -
  from assms obtain l where l: "cache_inv policy_inv policy_tracked c" "cache_view c = m"
    "c_policy c = PolicyLRU l" "lru_rep l ks" by (auto simp: lru_cache_rel_def)
  have "set ks = dom m"
    using any.cinvD(2) [OF l(1)] dom_cache_view [OF l(1)] lru_rep_tracked [OF l(4)] l(2,3)
    by (simp add: policy_tracked_def)
  moreover from this have "cache_Len c = length ks"
    using any.cache_Len_card [OF l(1)] l(2) distinct_card [OF lru_rep_distinct [OF l(4)]] by simp
  ultimately show thesis using that l lru_rep_distinct by blast
qed

lemma lru_dispatch:
  "OnAccess policies k t (PolicyLRU l) = map_option PolicyLRU (lru_OnAccess k t l)"
  "OnInsert policies k e t (PolicyLRU l) = map_option PolicyLRU (lru_OnInsert k e t l)"
  "OnEvict policies k (PolicyLRU l) = map_option PolicyLRU (lru_OnEvict k l)"
  "Evict policies (PolicyLRU l) = map_option (map_prod id PolicyLRU) (lru_Evict l)"
  by (simp_all add: policies_def policy_OnAccess_def policy_OnInsert_def policy_OnEvict_def policy_Evict_def)

lemma lru_rel_OnAccess:
  assumes "lru_rep l ks" "OnAccess policies k t (PolicyLRU l) = Some p" "k \<in> set ks"
  shows "\<exists>l'. p = PolicyLRU l' \<and> lru_rep l' (k # remove1 k ks)"
  using lru_OnAccess_rep [OF assms(1), of k t] assms(2,3) by (auto simp: lru_dispatch)

lemma lru_rel_OnEvict:
  assumes "lru_rep l ks" "OnEvict policies k (PolicyLRU l) = Some p"
  shows "\<exists>l'. p = PolicyLRU l' \<and> lru_rep l' (remove1 k ks)"
  using lru_OnEvict_rep [OF assms(1), of k] assms(2) by (auto simp: lru_dispatch)

lemma lru_rel_OnInsert:
  assumes "lru_rep l ks" "OnInsert policies k e t (PolicyLRU l) = Some p" "k \<notin> set ks"
  shows "\<exists>l'. p = PolicyLRU l' \<and> lru_rep l' (k # ks)"
  using lru_OnInsert_rep [OF assms(1,3), of e t] assms(2) by (auto simp: lru_dispatch)

lemma lru_cache_Get:
  assumes "lru_cache_rel c s" "mono clk"
  shows "\<exists>c'. cache_Get policies clk k c = Some (fst (ref_Get (clk 0) k s), c') \<and>
    lru_cache_rel c' (snd (ref_Get (clk 0) k s))"
proof -
  obtain ks m where s: "s = (ks, m)" by (cases s)
  obtain l where l: "cache_inv policy_inv policy_tracked c" "cache_view c = m" "c_policy c = PolicyLRU l"
    "lru_rep l ks" "set ks = dom m" "distinct ks" "cache_Len c = length ks"
    using assms(1) unfolding s by (rule lru_cache_relD)
  obtain c' where c': "cache_Get policies clk k c = Some (fst (spec_Get (clk 0) k m), c')"
    "cache_inv policy_inv policy_tracked c'" "cache_view c' = snd (spec_Get (clk 0) k m)"
    using any.Get_correct [OF l(1) assms(2), of k] l(2) by auto
  note pol = any.Get_policy [OF l(1) assms(2) c'(1)]
  show ?thesis
  proof (cases "m k")
    case None
    with c' pol l s show ?thesis by (simp add: lru_cache_rel_def spec_Get_def ref_Get_def)
  next
    case (Some ve)
    obtain v e where ve: "ve = (v, e)" by (cases ve)
    have k: "k \<in> set ks" using Some l(5) by auto
    show ?thesis
    proof (cases "expired_at (clk 0) e")
      case True
      with pol l ve Some lru_rel_OnEvict [OF l(4), of k] obtain l' where
        "c_policy c' = PolicyLRU l'" "lru_rep l' (remove1 k ks)" by auto
      with True Some ve c' l s show ?thesis by (simp add: lru_cache_rel_def spec_Get_def ref_Get_def)
    next
      case False
      with pol l ve Some k lru_rel_OnAccess [OF l(4), of k "clk 2" "c_policy c'"] obtain l' where
        "c_policy c' = PolicyLRU l'" "lru_rep l' (k # remove1 k ks)" by auto
      with False Some ve c' l s show ?thesis by (simp add: lru_cache_rel_def spec_Get_def ref_Get_def)
    qed
  qed
qed

lemma lru_set_locked:
  assumes "lru_cache_rel c s"
  shows "\<exists>c'. set_locked policies k v e clk c = Some c' \<and> lru_cache_rel c' (ref_Set (c_capacity c) k v e s)"
proof -
  obtain ks m where s: "s = (ks, m)" by (cases s)
  obtain l where l: "cache_inv policy_inv policy_tracked c" "cache_view c = m" "c_policy c = PolicyLRU l"
    "lru_rep l ks" "set ks = dom m" "distinct ks" "cache_Len c = length ks"
    using assms(1) unfolding s by (rule lru_cache_relD)
  obtain c' where c': "set_locked policies k v e clk c = Some c'" "cache_inv policy_inv policy_tracked c'"
    "spec_Set (c_capacity c) k v e m (cache_view c')"
    using any.set_locked_correct [OF l(1), of k v e clk] l(2) by auto
  note pol = any.set_locked_policy [OF l(1) c'(1)]
  consider (upd) "k \<in> set ks" | (room) "k \<notin> set ks" "int (length ks) < c_capacity c"
    | (full) "k \<notin> set ks" "c_capacity c \<le> int (length ks)" "ks \<noteq> []"
    | (empty) "ks = []" "c_capacity c \<le> 0" by (cases "ks = []") force+
  then show ?thesis
  proof cases
    case upd
    with pol(1) l lru_rel_OnAccess [OF l(4), of k "clk 1" "c_policy c'"] obtain l' where
      "c_policy c' = PolicyLRU l'" "lru_rep l' (k # remove1 k ks)" by auto
    with upd c' l s show ?thesis by (simp add: lru_cache_rel_def ref_Set_def spec_Set_def)
  next
    case room
    with pol(2) l lru_rel_OnInsert [OF l(4), of k e "clk 1" "c_policy c'"] obtain l' where
      l': "c_policy c' = PolicyLRU l'" "lru_rep l' (k # ks)" by auto
    have "cache_view c' = m(k \<mapsto> (v, e))"
      using c'(3) room l distinct_card [OF l(6)]
      by (auto simp: spec_Set_def spec_victim_def spec_drop_def split: option.splits)
    with l' room c' l s show ?thesis by (simp add: lru_cache_rel_def ref_Set_def)
  next
    case full
    then have "Evict policies (c_policy c) = Some (Some (last ks), PolicyLRU l)"
      using lru_Evict_rep [OF l(4)] l(3) by (simp add: lru_dispatch)
    then obtain p1 where p1: "OnEvict policies (last ks) (PolicyLRU l) = Some p1"
      "OnInsert policies k e (clk 1) p1 = Some (c_policy c')"
      "cache_view c' = m(last ks := None, k \<mapsto> (v, e))"
      using any.set_locked_victim [OF l(1), of k "last ks" "PolicyLRU l" v e clk] full l c'(1)
      by (auto simp: domIff)
    from lru_rel_OnEvict [OF l(4) p1(1)] obtain l1 where l1: "p1 = PolicyLRU l1" "lru_rep l1 (remove1 (last ks) ks)"
      by blast
    have "remove1 (last ks) ks = butlast ks" using full(3) l(6)
      by (metis append_butlast_last_id distinct_append remove1_append remove1.simps append_Nil2
          disjoint_iff list.set_intros(1))
    with lru_rel_OnInsert [of l1 "butlast ks" k e "clk 1"] l1 p1(2) full(1) obtain l' where
      "c_policy c' = PolicyLRU l'" "lru_rep l' (k # butlast ks)"
      by (auto dest: in_set_butlastD)
    with full c' l s p1(3) show ?thesis by (simp add: lru_cache_rel_def ref_Set_def)
  next
    case empty
    with l(5) have m: "m = Map.empty" by (metis dom_eq_empty_conv list.set(1))
    from empty l have "lru_Evict l = Some (None, l)" using lru_Evict_rep [OF l(4)] by simp
    moreover have "Mapping.lookup (c_entries c) k = None" using cache_view_None [OF l(1), of k] l(2) m by simp
    ultimately have ins: "OnInsert policies k e (clk 1) (PolicyLRU l) = Some (c_policy c')"
      using empty l c'(1) m
      by (auto simp: set_locked_def set_evict_def cache_Len_def lru_dispatch split: bind_splits)
    from lru_rel_OnInsert [OF l(4) ins] empty obtain l' where "c_policy c' = PolicyLRU l'" "lru_rep l' [k]" by auto
    moreover have "cache_view c' = m(k \<mapsto> (v, e))"
      using c'(3) m by (auto simp: spec_Set_def spec_victim_def spec_drop_def split: option.splits)
    ultimately show ?thesis using empty c' s by (simp add: lru_cache_rel_def ref_Set_def)
  qed
qed

lemma lru_cache_Delete:
  assumes "lru_cache_rel c s"
  shows "\<exists>c'. cache_Delete policies k c = Some c' \<and> lru_cache_rel c' (ref_Delete k s)"
proof -
  obtain ks m where s: "s = (ks, m)" by (cases s)
  obtain l where l: "cache_inv policy_inv policy_tracked c" "cache_view c = m" "c_policy c = PolicyLRU l"
    "lru_rep l ks" "set ks = dom m" "distinct ks" "cache_Len c = length ks"
    using assms(1) unfolding s by (rule lru_cache_relD)
  obtain c' where c': "cache_Delete policies k c = Some c'" "cache_inv policy_inv policy_tracked c'"
    "cache_view c' = m(k := None)"
    using any.Delete_correct [OF l(1), of k] l(2) by auto
  have "\<exists>l'. c_policy c' = PolicyLRU l' \<and> lru_rep l' (remove1 k ks)"
    using any.Delete_policy [OF l(1) c'(1)] lru_rel_OnEvict [OF l(4), of k] l
    by (cases "k \<in> set ks") (auto simp: remove1_idem)
  with c' s show ?thesis by (auto simp: lru_cache_rel_def ref_Delete_def)
qed

definition ref_op :: "int \<Rightarrow> cacheOp \<Rightarrow> lruRef \<Rightarrow> cacheResult \<times> lruRef" where
  "ref_op cap op s = (case op of
     OpGet clk key \<Rightarrow> map_prod Got id (ref_Get (clk 0) key s)
   | OpSet clk key value ttl \<Rightarrow>
       (SetReturned (set_validate ttl),
        if 0 \<le> ttl \<and> ttl \<le> maxTTL then ref_Set cap key value (clk 0 + ttl) s else s)
   | OpDelete key \<Rightarrow> (Deleted, ref_Delete key s))"

primrec ref_run :: "int \<Rightarrow> cacheOp list \<Rightarrow> lruRef \<Rightarrow> cacheResult list" where
  "ref_run cap [] s = []"
| "ref_run cap (op # ops) s = (case ref_op cap op s of (r, s') \<Rightarrow> r # ref_run cap ops s')"

lemma set_validate_None: "set_validate ttl = None \<longleftrightarrow> 0 \<le> ttl \<and> ttl \<le> maxTTL"
  by (auto simp: set_validate_def)

lemma set_expiry_add [simp]: "set_expiry ttl now = now + ttl"
  by (simp add: set_expiry_def)

lemma lru_apply_op:
  assumes "lru_cache_rel c s" "op_clock_ok op"
  shows "\<exists>c'. apply_op policies op c = Some (fst (ref_op (c_capacity c) op s), c') \<and>
    lru_cache_rel c' (snd (ref_op (c_capacity c) op s))"
proof (cases op)
  case (OpGet clk k)
  with assms lru_cache_Get [of c s clk k] show ?thesis
    by (auto simp: apply_op_def ref_op_def op_clock_ok_def)
next
  case (OpSet clk k v ttl)
  with assms lru_set_locked [of c s k v "clk 0 + ttl" clk] set_validate_None [of ttl] show ?thesis
    by (cases "set_validate ttl") (auto simp: apply_op_def ref_op_def cache_Set_def)
next
  case (OpDelete k)
  with assms lru_cache_Delete [of c s k] show ?thesis by (auto simp: apply_op_def ref_op_def)
qed

lemma lru_run_ops:
  assumes "lru_cache_rel c s" "list_all op_clock_ok ops"
  shows "\<exists>c'. run_ops policies ops c = Some (ref_run (c_capacity c) ops s, c')"
  using assms
proof (induction ops arbitrary: c s)
  case (Cons op ops)
  then obtain c1 where c1: "apply_op policies op c = Some (fst (ref_op (c_capacity c) op s), c1)"
    "lru_cache_rel c1 (snd (ref_op (c_capacity c) op s))"
    using lru_apply_op [of c s op] by auto
  have "cache_inv policy_inv policy_tracked c" using Cons.prems(1) by (auto simp: lru_cache_rel_def)
  then have "c_capacity c1 = c_capacity c"
    using any.apply_op_correct [of c op] Cons.prems(2) c1(1) by auto
  with Cons.IH [OF c1(2)] Cons.prems(2) c1(1) show ?case by (auto simp: case_prod_unfold)
qed simp

lemma cache_inv_built:
  "cache_inv policy_inv policy_tracked (cache_New cap (buildEvictionPolicy draws name))"
  by (intro cache_inv_New buildEvictionPolicy_inv buildEvictionPolicy_tracked)

lemma lru_cache_rel_New: "lru_cache_rel (cache_New cap (PolicyLRU NewLRU)) ([], Map.empty)"
  using cache_inv_built [of cap undefined "''lru''"] lru_rep_New
  by (simp add: lru_cache_rel_def buildEvictionPolicy_def)

text \<open>A full cache with entries for \<open>a\<close> and \<open>b\<close>, for the examples below.\<close>

definition example_ops :: "cacheOp list" where
  "example_ops = [OpSet (\<lambda>_. 5) ''a'' ''1'' 20, OpSet (\<lambda>_. 6) ''b'' ''2'' 10, OpGet (\<lambda>_. 7) ''b'']"

definition example_cache :: "string \<Rightarrow> evictionPolicy InMemoryCache" where
  "example_cache name = (case run_ops policies example_ops (cache_New 2 (buildEvictionPolicy (\<lambda>_. 0) name)) of
     Some (rs, c) \<Rightarrow> c | None \<Rightarrow> cache_New 2 (buildEvictionPolicy (\<lambda>_. 0) name))"

lemma example_cache_inv: "cache_inv policy_inv policy_tracked (example_cache name)"
proof -
  have "list_all op_clock_ok example_ops" by (simp add: example_ops_def op_clock_ok_def mono_def)
  from any.run_ops_correct [OF cache_inv_built [of 2 "\<lambda>_. 0" name] this] show ?thesis
    by (auto simp: example_cache_def)
qed

section \<open>Properties\<close>

text \<open>C1. A cache built with any of the four policies and any capacity never panics: every sequence of
  \<open>Get\<close>, \<open>Set\<close> and \<open>Delete\<close> calls runs to the end, the policy then tracks exactly the keys of
  the map, every map entry holds its own key, and the map has at most \<open>capacity\<close> entries (one,
  if the capacity is below one).\<close>

theorem cache_runs_safely:
  assumes "list_all op_clock_ok ops"
  shows "\<exists>rs c. run_ops policies ops (cache_New cap (buildEvictionPolicy draws name)) = Some (rs, c) \<and>
    cache_inv policy_inv policy_tracked c \<and> int (cache_Len c) \<le> max 1 cap"
  using any.run_ops_correct [OF cache_inv_built [of cap draws name] assms] any.cinvD(4)
  by (auto simp: cache_Len_def)

theorem cache_runs_safely_witness:
  "\<exists>rs c. run_ops policies
      [OpSet (\<lambda>_. 5) ''a'' ''1'' Second, OpSet (\<lambda>_. 6) ''b'' ''2'' Second, OpGet (\<lambda>i. 7 + int i) ''a'', OpDelete ''b'']
      (cache_New 1 (buildEvictionPolicy (\<lambda>_. 0) ''lfu'')) = Some (rs, c) \<and>
    cache_inv policy_inv policy_tracked c \<and> int (cache_Len c) \<le> max 1 1"
  by (rule cache_runs_safely) (simp add: op_clock_ok_def mono_def)

text \<open>C4. Seen from outside, the cache with the LRU policy is the reference LRU cache: whatever the
  calls, the pointer-linked implementation returns the same results as the list of keys in order
  of use that forgets its last key when full.\<close>

theorem lru_cache_is_reference:
  assumes "list_all op_clock_ok ops"
  shows "\<exists>c. run_ops policies ops (cache_New cap (buildEvictionPolicy draws ''lru'')) =
    Some (ref_run cap ops ([], Map.empty), c)"
  using lru_run_ops [OF lru_cache_rel_New assms, of cap]
  by (simp add: buildEvictionPolicy_def)

theorem lru_cache_is_reference_witness:
  "\<exists>c. run_ops policies
      [OpSet (\<lambda>_. 5) ''a'' ''1'' Second, OpSet (\<lambda>_. 6) ''b'' ''2'' Second, OpGet (\<lambda>_. 7) ''a'',
       OpSet (\<lambda>_. 8) ''c'' ''3'' Second, OpGet (\<lambda>_. 9) ''b'', OpGet (\<lambda>_. 10) ''a'']
      (cache_New 2 (buildEvictionPolicy (\<lambda>_. 0) ''lru'')) =
    Some ([SetReturned None, SetReturned None, Got (Some ''1''), SetReturned None, Got None, Got (Some ''1'')], c)"
  using lru_cache_is_reference [of "[OpSet (\<lambda>_. 5) ''a'' ''1'' Second, OpSet (\<lambda>_. 6) ''b'' ''2'' Second,
      OpGet (\<lambda>_. 7) ''a'', OpSet (\<lambda>_. 8) ''c'' ''3'' Second, OpGet (\<lambda>_. 9) ''b'', OpGet (\<lambda>_. 10) ''a'']"
      2 "\<lambda>_. 0"]
  by (simp add: op_clock_ok_def mono_def ref_op_def ref_Set_def ref_Get_def set_validate_def expired_at_def)

text \<open>C10. Round trip: with any policy, \<open>Set\<close> with a TTL in range succeeds, and a \<open>Get\<close> of the same key
  finds the value exactly when it looks no later than \<open>ttl\<close> after the write (a zero absolute
  expiry never expires); the instant of expiry itself still hits.\<close>

theorem cache_set_get:
  assumes "cache_inv policy_inv policy_tracked c" "0 \<le> ttl" "ttl \<le> maxTTL" "mono clk'"
  shows "\<exists>c1 c2. cache_Set policies clk k v ttl c = Some (None, c1) \<and>
    cache_Get policies clk' k c1 = Some (if expired_at (clk' 0) (clk 0 + ttl) then None else Some v, c2)"
  by (rule any.Set_Get [OF assms])

theorem cache_set_get_witness:
  "\<exists>c1 c2. cache_Set policies (\<lambda>_. 100) ''k'' ''v'' 50 (cache_New 3 (buildEvictionPolicy (\<lambda>_. 0) ''ttl'')) = Some (None, c1) \<and>
    cache_Get policies (\<lambda>_. 150) ''k'' c1 = Some (Some ''v'', c2)"
  using cache_set_get [of "cache_New 3 (buildEvictionPolicy (\<lambda>_. 0) ''ttl'')" 50 "\<lambda>_. 150" "\<lambda>_. 100" "''k''" "''v''"]
    cache_inv_built [of 3 "\<lambda>_. 0" "''ttl''"]
  by (simp add: mono_def expired_at_def)

text \<open>C16. With the LFU policy a full cache that is given a new key forgets exactly one entry, and no tracked
  key has a smaller (frequency, last access) than the one it forgets.\<close>

theorem lfu_cache_victim:
  assumes "cache_inv policy_inv policy_tracked c" "c_policy c = PolicyLFU l"
    "c_capacity c \<le> int (cache_Len c)" "cache_view c \<noteq> Map.empty" "cache_view c k = None"
  shows "\<exists>c' victim r. set_locked policies k v e clk c = Some c' \<and>
    cache_view c' = ((cache_view c)(victim := None))(k \<mapsto> (v, e)) \<and>
    lfu_view l victim = Some r \<and> (\<forall>k' r'. lfu_view l k' = Some r' \<longrightarrow> r \<le> r')"
proof -
  from any.cinvD(1,2) [OF assms(1)] assms(2) dom_cache_view [OF assms(1)]
  have l: "lfu_inv l" "dom (lfu_view l) = dom (cache_view c)"
    by (simp_all add: policy_inv_def policy_tracked_def lfu_tracked_def)
  then have "lfu_view l \<noteq> Map.empty" using assms(4) by (metis dom_eq_empty_conv)
  moreover obtain w where "lfu_Evict l = Some (w, l)" "case w of None \<Rightarrow> lfu_view l = Map.empty
     | Some k \<Rightarrow> \<exists>r. lfu_view l k = Some r \<and> (\<forall>k' r'. lfu_view l k' = Some r' \<longrightarrow> r \<le> r')"
    using lfu_Evict_view [OF l(1)] by blast
  ultimately obtain victim r where w: "lfu_Evict l = Some (Some victim, l)" "lfu_view l victim = Some r"
    "\<forall>k' r'. lfu_view l k' = Some r' \<longrightarrow> r \<le> r'"
    by (cases w) auto
  then have "Evict policies (c_policy c) = Some (Some victim, PolicyLFU l)"
    using assms(2) by (simp add: policies_def policy_Evict_def)
  from any.set_locked_victim [OF assms(1,5,3) this] w(2,3) show ?thesis by blast
qed

theorem lfu_cache_victim_witness:
  "\<exists>l c' victim r. c_policy (example_cache ''lfu'') = PolicyLFU l \<and>
    set_locked policies ''c'' ''3'' 30 (\<lambda>_. 8) (example_cache ''lfu'') = Some c' \<and>
    cache_view c' = ((cache_view (example_cache ''lfu''))(victim := None))(''c'' \<mapsto> (''3'', 30)) \<and>
    lfu_view l victim = Some r \<and> (\<forall>k' r'. lfu_view l k' = Some r' \<longrightarrow> r \<le> r')"
proof -
  let ?c = "example_cache ''lfu''"
  have "case c_policy ?c of PolicyLFU l \<Rightarrow> True | _ \<Rightarrow> False" by code_simp
  then obtain l where l: "c_policy ?c = PolicyLFU l" by (cases "c_policy ?c") simp_all
  have full: "c_capacity ?c \<le> int (cache_Len ?c)" by code_simp
  have "cache_view ?c ''a'' \<noteq> None" by code_simp
  then have ne: "cache_view ?c \<noteq> Map.empty" by auto
  have new: "cache_view ?c ''c'' = None" by code_simp
  show ?thesis
    using lfu_cache_victim [OF example_cache_inv l full ne new, of "''3''" 30 "\<lambda>_. 8"] l by blast
qed

text \<open>C17. With the TTL policy a full cache that is given a new key forgets exactly one entry, and no
  tracked key was inserted with an earlier expiry than the one it forgets.\<close>

theorem ttl_cache_victim:
  assumes "cache_inv policy_inv policy_tracked c" "c_policy c = PolicyTTL l"
    "c_capacity c \<le> int (cache_Len c)" "cache_view c \<noteq> Map.empty" "cache_view c k = None"
  shows "\<exists>c' victim r. set_locked policies k v e clk c = Some c' \<and>
    cache_view c' = ((cache_view c)(victim := None))(k \<mapsto> (v, e)) \<and>
    ttl_view l victim = Some r \<and> (\<forall>k' r'. ttl_view l k' = Some r' \<longrightarrow> r \<le> r')"
proof -
  from any.cinvD(1,2) [OF assms(1)] assms(2) dom_cache_view [OF assms(1)]
  have l: "ttl_inv l" "dom (ttl_view l) = dom (cache_view c)"
    by (simp_all add: policy_inv_def policy_tracked_def ttl_tracked_def)
  then have "ttl_view l \<noteq> Map.empty" using assms(4) by (metis dom_eq_empty_conv)
  moreover obtain w where "ttl_Evict l = Some (w, l)" "case w of None \<Rightarrow> ttl_view l = Map.empty
     | Some k \<Rightarrow> \<exists>r. ttl_view l k = Some r \<and> (\<forall>k' r'. ttl_view l k' = Some r' \<longrightarrow> r \<le> r')"
    using ttl_Evict_view [OF l(1)] by blast
  ultimately obtain victim r where w: "ttl_Evict l = Some (Some victim, l)" "ttl_view l victim = Some r"
    "\<forall>k' r'. ttl_view l k' = Some r' \<longrightarrow> r \<le> r'"
    by (cases w) auto
  then have "Evict policies (c_policy c) = Some (Some victim, PolicyTTL l)"
    using assms(2) by (simp add: policies_def policy_Evict_def)
  from any.set_locked_victim [OF assms(1,5,3) this] w(2,3) show ?thesis by blast
qed

theorem ttl_cache_victim_witness:
  "\<exists>l c' victim r. c_policy (example_cache ''ttl'') = PolicyTTL l \<and>
    set_locked policies ''c'' ''3'' 30 (\<lambda>_. 8) (example_cache ''ttl'') = Some c' \<and>
    cache_view c' = ((cache_view (example_cache ''ttl''))(victim := None))(''c'' \<mapsto> (''3'', 30)) \<and>
    ttl_view l victim = Some r \<and> (\<forall>k' r'. ttl_view l k' = Some r' \<longrightarrow> r \<le> r')"
proof -
  let ?c = "example_cache ''ttl''"
  have "case c_policy ?c of PolicyTTL l \<Rightarrow> True | _ \<Rightarrow> False" by code_simp
  then obtain l where l: "c_policy ?c = PolicyTTL l" by (cases "c_policy ?c") simp_all
  have full: "c_capacity ?c \<le> int (cache_Len ?c)" by code_simp
  have "cache_view ?c ''a'' \<noteq> None" by code_simp
  then have ne: "cache_view ?c \<noteq> Map.empty" by auto
  have new: "cache_view ?c ''c'' = None" by code_simp
  show ?thesis
    using ttl_cache_victim [OF example_cache_inv l full ne new, of "''3''" 30 "\<lambda>_. 8"] l by blast
qed

end
