(* ===== verification/CacheConcurrent.thy ===== *)
theory CacheConcurrent
  imports CachePolicies
begin

text \<open>
  Goroutines that call one \<open>InMemoryCache\<close> at the same time (\<open>src/internal/cache/cache.go\<close>). A call is
  cut where the code releases or has not yet taken the mutex, and the pieces of different
  calls interleave: between the lookup of a \<open>Get\<close> and its update the entry may be overwritten,
  expired or evicted, and the pointer it kept may no longer be in the map. The unlocked reads
  of \<open>entry.ExpiresAt\<close> and \<open>entry.Value\<close> are single steps (the Go memory model gives no such
  guarantee for them).
\<close>

section \<open>The code as interleaved pieces\<close>

text \<open>Where a call stands. \<open>key\<close> and \<open>a\<close> are the local variables \<open>key\<close> and \<open>entry\<close>.\<close>

datatype goroutine =
    GetCalled string                          \<comment> \<open>line 42\<close>
  | GetFound string addr                      \<comment> \<open>line 53: about to test \<open>entry.IsExpired\<close>\<close>
  | GetExpired string                         \<comment> \<open>line 54\<close>
  | GetLive string addr                       \<comment> \<open>line 65\<close>
  | GetTouched string addr                    \<comment> \<open>line 71: about to read \<open>entry.Value\<close>\<close>
  | GetReturned string "bytes option"
  | SetCalled string bytes duration           \<comment> \<open>line 83\<close>
  | SetStamped string bytes time time         \<comment> \<open>line 103, with \<open>expiresAt\<close> and \<open>now\<close>\<close>
  | SetDone string "cache_error option"
  | DeleteCalled string                       \<comment> \<open>line 144\<close>
  | DeleteDone string

definition finished :: "goroutine \<Rightarrow> bool" where
  "finished g \<longleftrightarrow> (case g of GetReturned _ _ \<Rightarrow> True | SetDone _ _ \<Rightarrow> True | DeleteDone _ \<Rightarrow> True | _ \<Rightarrow> False)"

text \<open>One piece of a call; \<^term>\<open>None\<close> is a panic.\<close>

definition advance :: "'p EvictionPolicy \<Rightarrow> clock \<Rightarrow> goroutine \<Rightarrow> 'p InMemoryCache \<Rightarrow>
    (goroutine \<times> 'p InMemoryCache) option" where
  "advance P clk g c = (case g of
     GetCalled key \<Rightarrow> (case get_lookup key c of
         None \<Rightarrow> Some (GetReturned key None, c)
       | Some a \<Rightarrow> Some (GetFound key a, c))
   | GetFound key a \<Rightarrow> do {
       e \<leftarrow> deref (c_mem c) (Some a);
       Some (if IsExpired e (clk 0) then GetExpired key else GetLive key a, c) }
   | GetExpired key \<Rightarrow> map_option (Pair (GetReturned key None)) (get_expire P key (clk 0) c)
   | GetLive key a \<Rightarrow> map_option (Pair (GetTouched key a)) (get_touch P key a clk c)
   | GetTouched key a \<Rightarrow> do {
       e \<leftarrow> deref (c_mem c) (Some a);
       Some (GetReturned key (Some (ce_Value e)), c) }
   | SetCalled key value ttl \<Rightarrow> (case set_validate ttl of
         Some err \<Rightarrow> Some (SetDone key (Some err), c)
       | None \<Rightarrow> Some (SetStamped key value (set_expiry ttl (clk 0)) (clk 0), c))
   | SetStamped key value expiresAt now \<Rightarrow>
       map_option (Pair (SetDone key None)) (set_locked P key value expiresAt (case_nat now clk) c)
   | DeleteCalled key \<Rightarrow> map_option (Pair (DeleteDone key)) (cache_Delete P key c)
   | _ \<Rightarrow> Some (g, c))"

text \<open>The scheduler picks an unfinished goroutine; the clock readings are arbitrary.\<close>

inductive interleave :: "'p EvictionPolicy \<Rightarrow> 'p InMemoryCache \<times> goroutine list \<Rightarrow>
    'p InMemoryCache \<times> goroutine list \<Rightarrow> bool" for P s where
  start: "interleave P s s"
| step: "interleave P s (c, gs) \<Longrightarrow> i < length gs \<Longrightarrow> \<not> finished (gs ! i) \<Longrightarrow>
    advance P clk (gs ! i) c = Some (g, c') \<Longrightarrow> interleave P s (c', gs[i := g])"

section \<open>What the pieces do to the entries\<close>

text \<open>Calls of \<open>Set\<close> for a key in the initial list of goroutines.\<close>

definition written :: "goroutine list \<Rightarrow> string \<Rightarrow> bytes set" where
  "written gs key = {v. \<exists>ttl. SetCalled key v ttl \<in> set gs}"

text \<open>Entries are never freed or renamed, and hold only values written for their key.\<close>

definition values_ok :: "(string \<Rightarrow> bytes set) \<Rightarrow> 'p InMemoryCache \<Rightarrow> bool" where
  "values_ok W c \<longleftrightarrow> (\<forall>a e. c_mem c a = Some e \<longrightarrow> ce_Value e \<in> W (ce_Key e))"

definition points_to :: "'p InMemoryCache \<Rightarrow> addr \<Rightarrow> string \<Rightarrow> bool" where
  "points_to c a key \<longleftrightarrow> (\<exists>e. c_mem c a = Some e \<and> ce_Key e = key)"

definition goroutine_ok :: "(string \<Rightarrow> bytes set) \<Rightarrow> 'p InMemoryCache \<Rightarrow> goroutine \<Rightarrow> bool" where
  "goroutine_ok W c g = (case g of
     GetFound key a \<Rightarrow> points_to c a key
   | GetLive key a \<Rightarrow> points_to c a key
   | GetTouched key a \<Rightarrow> points_to c a key
   | GetReturned key r \<Rightarrow> (case r of None \<Rightarrow> True | Some v \<Rightarrow> v \<in> W key)
   | SetCalled key v _ \<Rightarrow> v \<in> W key
   | SetStamped key v _ _ \<Rightarrow> v \<in> W key
   | _ \<Rightarrow> True)"

definition entries_kept :: "'p InMemoryCache \<Rightarrow> 'p InMemoryCache \<Rightarrow> bool" where
  "entries_kept c c' \<longleftrightarrow> (\<forall>a key. points_to c a key \<longrightarrow> points_to c' a key)"

lemma goroutine_ok_kept: "entries_kept c c' \<Longrightarrow> goroutine_ok W c g \<Longrightarrow> goroutine_ok W c' g"
  by (cases g) (auto simp: goroutine_ok_def entries_kept_def)

lemma same_mem:
  assumes "c_mem c' = c_mem c"
  shows "entries_kept c c'" "values_ok W c' = values_ok W c"
  using assms by (simp_all add: entries_kept_def points_to_def values_ok_def)

lemma update_mem:
  assumes "c_mem c' = (c_mem c)(a \<mapsto> x)" "\<And>e. c_mem c a = Some e \<Longrightarrow> ce_Key e = ce_Key x"
  shows "entries_kept c c'" "values_ok W c \<Longrightarrow> ce_Value x \<in> W (ce_Key x) \<Longrightarrow> values_ok W c'"
  using assms by (auto simp: entries_kept_def points_to_def values_ok_def)

context eviction_policy
begin

lemma get_expire_ok:
  assumes "cinv c"
  shows "\<exists>c'. get_expire P k now c = Some c' \<and> cinv c' \<and> c_mem c' = c_mem c"
proof (cases "Mapping.lookup (c_entries c) k")
  case None
  with assms show ?thesis by (simp add: get_expire_def)
next
  case (Some a)
  then obtain e where e: "c_mem c a = Some e" using cache_inv_lookup [OF assms] by blast
  obtain p c' where "OnEvict P k (c_policy c) = Some p"
    "c' = c\<lparr>c_entries := Mapping.delete k (c_entries c), c_policy := p\<rparr>"
    "cinv c'" "cache_view c' = (cache_view c)(k := None)" "c_capacity c' = c_capacity c"
    by (rule drop_correct [OF assms])
  with Some e assms show ?thesis by (simp add: get_expire_def)
qed

lemma Delete_ok:
  assumes "cinv c"
  shows "\<exists>c'. cache_Delete P k c = Some c' \<and> cinv c' \<and> c_mem c' = c_mem c"
  using Delete_correct [OF assms, of k]
  by (auto simp: cache_Delete_def split: option.splits bind_splits)

lemma set_locked_mem:
  assumes "cinv c" "set_locked P k v e clk c = Some c'"
  shows "\<exists>a x. c_mem c' = (c_mem c)(a \<mapsto> x) \<and> ce_Key x = k \<and> ce_Value x = v \<and>
    (\<forall>y. c_mem c a = Some y \<longrightarrow> ce_Key y = k)"
proof (cases "Mapping.lookup (c_entries c) k")
  case (Some a)
  then obtain y where "c_mem c a = Some y" "ce_Key y = k" using cache_inv_lookup [OF assms(1)] by blast
  with Some assms(2) show ?thesis
    by (intro exI [of _ a] exI [of _ "y\<lparr>ce_Value := v, ce_ExpiresAt := e, ce_AccessedAt := clk 0,
          ce_AccessCount := int64 (ce_AccessCount y + 1)\<rparr>"])
      (auto simp: set_locked_def modify_def split: bind_splits)
next
  case None
  let ?x = "\<lparr>ce_Key = k, ce_Value = v, ce_ExpiresAt = e, ce_CreatedAt = clk 0, ce_AccessedAt = clk 0,
    ce_AccessCount = 1\<rparr>"
  from None assms(2) obtain c1 where c1: "set_evict P c = Some c1" "c_mem c' = (c_mem c1)(c_brk c1 \<mapsto> ?x)"
    by (auto simp: set_locked_def split: bind_splits)
  from c1(1) have "c_mem c1 = c_mem c" "c_brk c1 = c_brk c"
    by (auto simp: set_evict_def split: if_splits bind_splits option.splits)
  moreover have "c_mem c (c_brk c) = None" using assms(1) by (auto simp: cache_inv_def)
  ultimately show ?thesis using c1(2) by (intro exI [of _ "c_brk c"] exI [of _ ?x]) simp
qed

text \<open>One piece keeps the invariant of the cache, of the entries and of every goroutine.\<close>

lemma advance_correct:
  assumes "cinv c" "values_ok W c" "goroutine_ok W c g"
  shows "\<exists>g' c'. advance P clk g c = Some (g', c') \<and> cinv c' \<and> values_ok W c' \<and> goroutine_ok W c' g' \<and>
    entries_kept c c'"
proof (cases g)
  case (GetCalled key)
  then show ?thesis using assms cache_inv_lookup [OF assms(1), of key]
    by (auto simp: advance_def get_lookup_def goroutine_ok_def points_to_def entries_kept_def split: option.splits)
next
  case (GetFound key a)
  then show ?thesis using assms
    by (auto simp: advance_def goroutine_ok_def points_to_def entries_kept_def)
next
  case (GetExpired key)
  obtain c' where "get_expire P key (clk 0) c = Some c'" "cinv c'" "c_mem c' = c_mem c"
    using get_expire_ok [OF assms(1)] by blast
  then show ?thesis using GetExpired assms(2) same_mem [of c' c] by (simp add: advance_def goroutine_ok_def)
next
  case (GetLive key a)
  then obtain x where x: "c_mem c a = Some x" "ce_Key x = key" using assms(3) by (auto simp: goroutine_ok_def points_to_def)
  obtain c' x' where c': "get_touch P key a clk c = Some c'" "cinv c'" "c_mem c' = (c_mem c)(a \<mapsto> x')"
    "ce_Key x' = ce_Key x" "ce_Value x' = ce_Value x"
    using get_touch_correct [OF assms(1) x(1)] by blast
  have "entries_kept c c'" "values_ok W c'"
    using update_mem [OF c'(3)] c'(4,5) x(1) assms(2) by (auto simp: values_ok_def)
  then show ?thesis using GetLive c' x by (simp add: advance_def goroutine_ok_def points_to_def)
next
  case (GetTouched key a)
  then show ?thesis using assms
    by (auto simp: advance_def goroutine_ok_def points_to_def entries_kept_def values_ok_def)
next
  case (SetCalled key v ttl)
  then show ?thesis using assms
    by (cases "set_validate ttl") (auto simp: advance_def goroutine_ok_def entries_kept_def)
next
  case (SetStamped key v e now)
  obtain c' where c': "set_locked P key v e (case_nat now clk) c = Some c'" "cinv c'"
    using set_locked_correct [OF assms(1)] by blast
  from set_locked_mem [OF assms(1) c'(1)] obtain a x where x: "c_mem c' = (c_mem c)(a \<mapsto> x)" "ce_Key x = key" "ce_Value x = v"
    "\<forall>y. c_mem c a = Some y \<longrightarrow> ce_Key y = key" by blast
  have "entries_kept c c'" "values_ok W c'"
    using update_mem [OF x(1)] x(2-4) assms(2,3) SetStamped by (auto simp: goroutine_ok_def)
  then show ?thesis using SetStamped c' by (simp add: advance_def goroutine_ok_def)
next
  case (DeleteCalled key)
  obtain c' where "cache_Delete P key c = Some c'" "cinv c'" "c_mem c' = c_mem c"
    using Delete_ok [OF assms(1)] by blast
  then show ?thesis using DeleteCalled assms(2) same_mem [of c' c] by (simp add: advance_def goroutine_ok_def)
qed (use assms in \<open>auto simp: advance_def goroutine_ok_def entries_kept_def\<close>)

lemma interleave_correct:
  assumes "interleave P (c0, gs0) (c, gs)" "cinv c0" "values_ok W c0" "list_all (goroutine_ok W c0) gs0"
  shows "cinv c \<and> values_ok W c \<and> list_all (goroutine_ok W c) gs"
  using assms(1)
proof (induction "(c, gs)" arbitrary: c gs rule: interleave.induct)
  case start
  with assms(2-4) show ?case by simp
next
  case (step c gs i clk g c')
  then have ok: "cinv c" "values_ok W c" "list_all (goroutine_ok W c) gs" by simp_all
  with step(3) have "goroutine_ok W c (gs ! i)" by (simp add: list_all_length)
  from advance_correct [OF ok(1,2) this, of clk] step(5) have
    new: "cinv c'" "values_ok W c'" "goroutine_ok W c' g" "entries_kept c c'" by auto
  have "list_all (goroutine_ok W c') gs" using ok(3) goroutine_ok_kept [OF new(4)] by (simp add: list_all_iff)
  then have "list_all (goroutine_ok W c') (gs[i := g])"
    using new(3) set_update_subset_insert [of gs i g] by (auto simp: list_all_iff)
  with new show ?case by simp
qed

end

section \<open>Properties\<close>

definition called :: "goroutine \<Rightarrow> bool" where
  "called g \<longleftrightarrow> (case g of GetCalled _ \<Rightarrow> True | SetCalled _ _ _ \<Rightarrow> True | DeleteCalled _ \<Rightarrow> True | _ \<Rightarrow> False)"

lemma called_ok: "list_all called gs \<Longrightarrow> list_all (goroutine_ok (written gs) c) gs"
  by (auto simp: list_all_iff called_def goroutine_ok_def written_def split: goroutine.splits)

text \<open>C5. However calls of \<open>Get\<close>, \<open>Set\<close> and \<open>Delete\<close> by concurrent goroutines interleave, and whatever
  the policy: no goroutine can panic, the policy keeps tracking exactly the keys of the map, the
  map never exceeds its capacity, and a hit returns a value that some call of \<open>Set\<close> wrote for
  that very key.\<close>

theorem concurrent_cache_safe:
  assumes "interleave policies (cache_New cap (buildEvictionPolicy draws name), gs0) (c, gs)"
    and "list_all called gs0"
  shows "cache_inv policy_inv policy_tracked c \<and>
    (\<forall>g clk. g \<in> set gs \<longrightarrow> advance policies clk g c \<noteq> None) \<and>
    (\<forall>key v. GetReturned key (Some v) \<in> set gs \<longrightarrow> v \<in> written gs0 key)"
proof -
  let ?c0 = "cache_New cap (buildEvictionPolicy draws name)"
  have "values_ok (written gs0) ?c0" by (simp add: values_ok_def cache_New_def)
  from any.interleave_correct [OF assms(1) cache_inv_built this called_ok [OF assms(2)]]
  have ok: "cache_inv policy_inv policy_tracked c" "values_ok (written gs0) c"
    "\<And>g. g \<in> set gs \<Longrightarrow> goroutine_ok (written gs0) c g" by (simp_all add: list_all_iff)
  moreover have "advance policies clk g c \<noteq> None" if "g \<in> set gs" for g clk
    using any.advance_correct [OF ok(1,2) ok(3) [OF that], of clk] by auto
  moreover have "v \<in> written gs0 key" if "GetReturned key (Some v) \<in> set gs" for key v
    using ok(3) [OF that] by (simp add: goroutine_ok_def)
  ultimately show ?thesis by blast
qed

text \<open>A schedule in which a \<open>Get\<close> looks its key up before a \<open>Set\<close> overwrites the entry and reads the
  value after: it returns the new value.\<close>

definition schedule :: "(nat \<times> time) list \<Rightarrow> evictionPolicy InMemoryCache \<times> goroutine list \<Rightarrow>
    evictionPolicy InMemoryCache \<times> goroutine list" where
  "schedule is s = fold (\<lambda>(i, t) (c, gs).
     if i < length gs \<and> \<not> finished (gs ! i) then
       (case advance policies (\<lambda>_. t) (gs ! i) c of Some (g, c') \<Rightarrow> (c', gs[i := g]) | None \<Rightarrow> (c, gs))
     else (c, gs)) is s"

lemma schedule_interleave: "interleave policies s (schedule is s)"
proof (induction "is" rule: rev_induct)
  case Nil
  show ?case by (simp add: schedule_def interleave.start)
next
  case (snoc x xs)
  obtain c gs where s: "schedule xs s = (c, gs)" by (cases "schedule xs s")
  obtain i t where x: "x = (i, t)" by (cases x)
  have "schedule (xs @ [x]) s = (if i < length gs \<and> \<not> finished (gs ! i) then
       (case advance policies (\<lambda>_. t) (gs ! i) c of Some (g, c') \<Rightarrow> (c', gs[i := g]) | None \<Rightarrow> (c, gs))
     else (c, gs))" using s x by (simp add: schedule_def)
  with snoc s show ?case by (auto simp: split: option.splits intro: interleave.step)
qed

theorem concurrent_cache_safe_witness:
  "\<exists>c gs. interleave policies (cache_New 1 (buildEvictionPolicy (\<lambda>_. 0) ''lru''),
      [SetCalled ''k'' ''old'' 50, GetCalled ''k'', SetCalled ''k'' ''new'' 50]) (c, gs) \<and>
    GetReturned ''k'' (Some ''new'') \<in> set gs \<and>
    ''new'' \<in> written [SetCalled ''k'' ''old'' 50, GetCalled ''k'', SetCalled ''k'' ''new'' 50] ''k'' \<and>
    cache_inv policy_inv policy_tracked c"
proof -
  let ?gs = "[SetCalled ''k'' ''old'' 50, GetCalled ''k'', SetCalled ''k'' ''new'' 50]"
  let ?s = "schedule [(0, 1), (0, 2), (1, 3), (1, 4), (2, 5), (2, 6), (1, 7), (1, 8)]
    (cache_New 1 (buildEvictionPolicy (\<lambda>_. 0) ''lru''), ?gs)"
  have gs: "snd ?s = [SetDone ''k'' None, GetReturned ''k'' (Some ''new''), SetDone ''k'' None]"
    by code_simp
  have run: "interleave policies (cache_New 1 (buildEvictionPolicy (\<lambda>_. 0) ''lru''), ?gs) (fst ?s, snd ?s)"
    by (simp add: schedule_interleave)
  have called: "list_all called ?gs" by (simp add: called_def)
  from concurrent_cache_safe [OF run called] show ?thesis
    using run unfolding gs by (intro exI [of _ "fst ?s"] exI conjI) auto
qed

end
