(* ===== verification/Ring.thy ===== *)
theory Ring
  imports Prelude "HOL-Library.Char_ord"
begin

unbundle bit_operations_syntax

text \<open>
  The consistent hashing ring of \<open>src/internal/cluster/ring.go\<close>: FNV-1a on 32-bit words, virtual
  tokens, the sorted token list and its binary search. Shown here: the binary search finds the
  least index, so a lookup finds the first token clockwise; adding or removing a node moves
  only the keys of that node's arcs; removal undoes addition.
\<close>

section \<open>What the source uses of the Go library\<close>

text \<open>\<open>hash/fnv\<close>: FNV-1a with 32 bits, the byte xor-ed in before the multiplication.\<close>

type_synonym uint32 = "32 word"

definition fnv1a_step :: "uint32 \<Rightarrow> char \<Rightarrow> uint32" where
  "fnv1a_step h c = (h XOR of_char c) * 16777619"

definition hashKey :: "string \<Rightarrow> uint32" where
  "hashKey key = foldl fnv1a_step 2166136261 key"

text \<open>\<open>strconv\<close>'s decimal notation, as \<open>%d\<close> prints a non-negative number.\<close>

fun decimal :: "nat \<Rightarrow> string" where
  "decimal n = (if n < 10 then [char_of (48 + n)] else decimal (n div 10) @ [char_of (48 + n mod 10)])"

declare decimal.simps [simp del]

definition decimal_int :: "int \<Rightarrow> string" where
  "decimal_int i = (if i < 0 then ''-'' @ decimal (nat (- i)) else decimal (nat i))"

text \<open>\<open>sort.Search\<close>: halve the interval until it is empty.\<close>

function sort_Search :: "(nat \<Rightarrow> bool) \<Rightarrow> nat \<Rightarrow> nat \<Rightarrow> nat" where
  "sort_Search f i j =
     (if i < j then
        let h = (i + j) div 2
        in if \<not> f h then sort_Search f (h + 1) j else sort_Search f i h
      else i)"
  by pat_completeness auto
termination
  by (relation "measure (\<lambda>(f, i, j). j - i)") auto

declare sort_Search.simps [simp del]

section \<open>The code\<close>

definition defaultVirtualNodes :: nat where
  "defaultVirtualNodes = 150"

record Ring =
  tokens :: "uint32 \<rightharpoonup> string"
  sortedTokens :: "uint32 list"
  nodeAddrs :: "(string, string) mapping"
  virtualNodes :: nat

definition NewRing :: Ring where
  "NewRing = \<lparr>tokens = Map.empty, sortedTokens = [], nodeAddrs = Mapping.empty,
     virtualNodes = defaultVirtualNodes\<rparr>"

text \<open>Reading a Go map at an absent key gives the zero value, here the empty string.\<close>

definition token_owner :: "(uint32 \<rightharpoonup> string) \<Rightarrow> uint32 \<Rightarrow> string" where
  "token_owner m t = (case m t of None \<Rightarrow> '''' | Some n \<Rightarrow> n)"

definition node_token :: "string \<Rightarrow> nat \<Rightarrow> uint32" where
  "node_token nodeID i = hashKey (nodeID @ ''-'' @ decimal i)"

text \<open>The loop of \<open>Add\<close>, from token \<open>i\<close> on for \<open>n\<close> more tokens.\<close>

primrec add_tokens :: "nat \<Rightarrow> nat \<Rightarrow> string \<Rightarrow> (uint32 \<rightharpoonup> string) \<times> uint32 list \<Rightarrow> (uint32 \<rightharpoonup> string) \<times> uint32 list" where
  "add_tokens 0 i nodeID s = s"
| "add_tokens (Suc n) i nodeID s = (case s of (m, ts) \<Rightarrow>
     add_tokens n (Suc i) nodeID (m(node_token nodeID i \<mapsto> nodeID), ts @ [node_token nodeID i]))"

definition ring_Add :: "string \<Rightarrow> string \<Rightarrow> Ring \<Rightarrow> Ring" where
  "ring_Add nodeID addr r = (case add_tokens (virtualNodes r) 0 nodeID (tokens r, sortedTokens r) of (m, ts) \<Rightarrow>
     r\<lparr>nodeAddrs := Mapping.update nodeID addr (nodeAddrs r), tokens := m, sortedTokens := sort ts\<rparr>)"

text \<open>
  The loop of \<open>Remove\<close>: \<open>newSorted\<close> shares the array of \<open>sortedTokens\<close>, so the token read at \<open>i\<close> is
  written back at \<open>w\<close>, the length of \<open>newSorted\<close> so far.
\<close>

function remove_loop :: "string \<Rightarrow> nat \<Rightarrow> nat \<Rightarrow> uint32 list \<Rightarrow> (uint32 \<rightharpoonup> string) \<Rightarrow> uint32 list \<times> (uint32 \<rightharpoonup> string)" where
  "remove_loop nodeID i w arr m =
     (if i < length arr then
        let token = arr ! i
        in if token_owner m token = nodeID then remove_loop nodeID (Suc i) w arr (m(token := None))
           else remove_loop nodeID (Suc i) (Suc w) (arr[w := token]) m
      else (take w arr, m))"
  by pat_completeness auto
termination
  by (relation "measure (\<lambda>(nodeID, i, w, arr, m). length arr - i)") auto

declare remove_loop.simps [simp del]

definition ring_Remove :: "string \<Rightarrow> Ring \<Rightarrow> Ring" where
  "ring_Remove nodeID r = (case remove_loop nodeID 0 0 (sortedTokens r) (tokens r) of (ts, m) \<Rightarrow>
     r\<lparr>nodeAddrs := Mapping.delete nodeID (nodeAddrs r), tokens := m, sortedTokens := ts\<rparr>)"

text \<open>\<open>Get\<close>: node and address, or none if the ring is empty.\<close>

definition ring_Get :: "string \<Rightarrow> Ring \<Rightarrow> (string \<times> string) option" where
  "ring_Get key r =
     (if length (sortedTokens r) = 0 then None
      else let position = hashKey key;
               idx = sort_Search (\<lambda>i. sortedTokens r ! i \<ge> position) 0 (length (sortedTokens r));
               idx = (if idx = length (sortedTokens r) then 0 else idx);
               nodeID = token_owner (tokens r) (sortedTokens r ! idx)
           in Some (nodeID, case Mapping.lookup (nodeAddrs r) nodeID of None \<Rightarrow> '''' | Some a \<Rightarrow> a))"

text \<open>Go iterates over a map in no fixed order, so \<open>Nodes\<close> is given as a set.\<close>

definition ring_Nodes :: "Ring \<Rightarrow> string set" where
  "ring_Nodes r = Mapping.keys (nodeAddrs r)"

definition ring_NodeAddr :: "string \<Rightarrow> Ring \<Rightarrow> string option" where
  "ring_NodeAddr nodeID r = Mapping.lookup (nodeAddrs r) nodeID"

section \<open>The binary search\<close>

lemma sort_Search_stop: "\<not> i < j \<Longrightarrow> sort_Search f i j = i"
  by (simp add: sort_Search.simps [of f i j])

lemma sort_Search_step:
  "i < j \<Longrightarrow> sort_Search f i j =
     (if f ((i + j) div 2) then sort_Search f i ((i + j) div 2) else sort_Search f (Suc ((i + j) div 2)) j)"
  by (simp add: sort_Search.simps [of f i j])

lemma sort_Search_bounds: "i \<le> j \<Longrightarrow> i \<le> sort_Search f i j \<and> sort_Search f i j \<le> j"
proof (induction f i j rule: sort_Search.induct)
  case (1 f i j)
  let ?h = "(i + j) div 2"
  consider "\<not> i < j" | "i < j" "f ?h" | "i < j" "\<not> f ?h" by blast
  then show ?case
  proof cases
    case 1
    with "1.prems" show ?thesis by (simp add: sort_Search_stop)
  next
    case 2
    then have "i \<le> ?h" "?h \<le> j" by linarith+
    with "1.IH"(2) [OF 2(1) refl] 2 show ?thesis by (simp add: sort_Search_step)
  next
    case 3
    then have "Suc ?h \<le> j" "i \<le> Suc ?h" by linarith+
    with "1.IH"(1) [OF 3(1) refl 3(2)] 3 show ?thesis by (simp add: sort_Search_step)
  qed
qed

lemma sort_Search_least:
  assumes "i \<le> j" "\<And>a b. a \<le> b \<Longrightarrow> b < n \<Longrightarrow> f a \<Longrightarrow> f b" "j \<le> n"
    and "\<And>k. k < i \<Longrightarrow> \<not> f k" "\<And>k. j \<le> k \<Longrightarrow> k < n \<Longrightarrow> f k"
  shows "(\<forall>k. k < sort_Search f i j \<longrightarrow> \<not> f k) \<and> (\<forall>k. sort_Search f i j \<le> k \<longrightarrow> k < n \<longrightarrow> f k)"
  using assms
proof (induction f i j rule: sort_Search.induct)
  case (1 f i j)
  let ?h = "(i + j) div 2"
  consider "\<not> i < j" | "i < j" "f ?h" | "i < j" "\<not> f ?h" by blast
  then show ?case
  proof cases
    case 1
    with "1.prems"(1) have "i = j" by simp
    with "1.prems"(4,5) show ?thesis by (simp add: sort_Search_stop)
  next
    case 2
    have "f k" if "?h \<le> k" "k < n" for k using "1.prems"(2) [OF that] 2 by simp
    with "1.IH"(2) [OF 2(1) refl] 2 "1.prems" show ?thesis by (simp add: sort_Search_step)
  next
    case 3
    then have "?h < n" using "1.prems"(3) by linarith
    have "\<not> f k" if "k < ?h + 1" for k
      using "1.prems"(2) [of k ?h] 3(2) that \<open>?h < n\<close> by auto
    with "1.IH"(1) [OF 3(1) refl 3(2)] 3 "1.prems" show ?thesis by (simp add: sort_Search_step)
  qed
qed

section \<open>Clockwise successors\<close>

text \<open>The first element at or after \<open>p\<close>, or else the first of all.\<close>

definition clockwise :: "'a::linorder set \<Rightarrow> 'a \<Rightarrow> 'a" where
  "clockwise T p = (if \<exists>t\<in>T. p \<le> t then Min {t \<in> T. p \<le> t} else Min T)"

lemma clockwise_in:
  assumes "finite T" "T \<noteq> {}"
  shows "clockwise T p \<in> T"
proof (cases "\<exists>t\<in>T. p \<le> t")
  case True
  then have "Min {t \<in> T. p \<le> t} \<in> {t \<in> T. p \<le> t}" using assms(1) by (intro Min_in) auto
  with True show ?thesis by (simp add: clockwise_def)
next
  case False
  with assms show ?thesis by (simp add: clockwise_def Min_in)
qed

text \<open>Leaving out elements that are not the successor does not change it.\<close>

lemma clockwise_subset:
  assumes "finite T" "S \<subseteq> T" "clockwise T p \<in> S"
  shows "clockwise S p = clockwise T p"
proof (cases "\<exists>t\<in>T. p \<le> t")
  case True
  then have eq: "clockwise T p = Min {t \<in> T. p \<le> t}" by (simp add: clockwise_def)
  have "Min {t \<in> T. p \<le> t} \<in> {t \<in> T. p \<le> t}" using True assms(1) by (intro Min_in) auto
  then have p: "p \<le> clockwise T p" using eq by simp
  moreover have "Min {t \<in> S. p \<le> t} = clockwise T p"
    using assms p eq by (intro Min_eqI) (auto intro: finite_subset intro!: Min_le)
  ultimately show ?thesis using assms(3) by (auto simp: clockwise_def [of S])
next
  case False
  then have eq: "clockwise T p = Min T" by (simp add: clockwise_def)
  have "Min S = clockwise T p"
    using assms eq by (intro Min_eqI) (auto intro: finite_subset intro!: Min_le)
  with False assms(2) show ?thesis by (auto simp: clockwise_def [of S])
qed

lemma search_clockwise:
  fixes p :: "'a::linorder"
  assumes srt: "sorted ts" and ne: "ts \<noteq> []"
  shows "ts ! (if sort_Search (\<lambda>i. p \<le> ts ! i) 0 (length ts) = length ts then 0
               else sort_Search (\<lambda>i. p \<le> ts ! i) 0 (length ts)) = clockwise (set ts) p"
proof -
  define f where "f = (\<lambda>i. p \<le> ts ! i)"
  define idx where "idx = sort_Search f 0 (length ts)"
  have up: "f b" if "a \<le> b" "b < length ts" "f a" for a b
    using sorted_nth_mono [OF srt that(1,2)] that(3) unfolding f_def by (rule order_trans [rotated])
  have "(\<forall>k. k < idx \<longrightarrow> \<not> f k) \<and> (\<forall>k. idx \<le> k \<longrightarrow> k < length ts \<longrightarrow> f k)"
    unfolding idx_def by (rule sort_Search_least) (use up in auto)
  then have below: "\<And>k. k < idx \<Longrightarrow> \<not> p \<le> ts ! k" and above: "\<And>k. idx \<le> k \<Longrightarrow> k < length ts \<Longrightarrow> p \<le> ts ! k"
    unfolding f_def by blast+
  have "idx \<le> length ts" using sort_Search_bounds [of 0 "length ts" f] unfolding idx_def by blast
  then consider "idx = length ts" | "idx < length ts" by linarith
  then have "ts ! (if idx = length ts then 0 else idx) = clockwise (set ts) p"
  proof cases
    case 1
    then have "\<not> (\<exists>t\<in>set ts. p \<le> t)" using below unfolding set_conv_nth by blast
    moreover have "Min (set ts) = ts ! 0"
    proof (rule Min_eqI)
      fix t assume "t \<in> set ts"
      then obtain k where "k < length ts" "t = ts ! k" unfolding set_conv_nth by blast
      then show "ts ! 0 \<le> t" using sorted_nth_mono [OF srt, of 0 k] by simp
    qed (use ne in simp_all)
    ultimately show ?thesis using 1 unfolding clockwise_def by simp
  next
    case 2
    then have p: "p \<le> ts ! idx" using above by simp
    have "Min {t \<in> set ts. p \<le> t} = ts ! idx"
    proof (rule Min_eqI)
      fix t assume t: "t \<in> {t \<in> set ts. p \<le> t}"
      then obtain k where k: "k < length ts" "t = ts ! k" unfolding set_conv_nth by blast
      with t below have "idx \<le> k" by (cases "k < idx") auto
      with k show "ts ! idx \<le> t" using sorted_nth_mono [OF srt] by simp
    qed (use 2 p in simp_all)
    moreover have "\<exists>t\<in>set ts. p \<le> t" using 2 p nth_mem by blast
    ultimately show ?thesis using 2 unfolding clockwise_def by simp
  qed
  then show ?thesis unfolding idx_def f_def .
qed

section \<open>Tokens\<close>

abbreviation token_set :: "nat \<Rightarrow> string \<Rightarrow> uint32 set" where
  "token_set n nodeID \<equiv> node_token nodeID ` {0..<n}"

lemma add_tokens_eq:
  "add_tokens n i nodeID (m, ts) =
     (\<lambda>t. if t \<in> node_token nodeID ` {i..<i + n} then Some nodeID else m t,
      ts @ map (node_token nodeID) [i..<i + n])"
proof (induction n arbitrary: i m ts)
  case (Suc n)
  have "{i..<i + Suc n} = insert i {Suc i..<Suc i + n}" "[i..<i + Suc n] = i # [Suc i..<Suc i + n]"
    by (auto simp: upt_conv_Cons)
  then show ?case by (simp add: Suc.IH fun_eq_iff del: upt_Suc)
qed simp

text \<open>\<open>Remove\<close> on a list of its own, in place of the shared array.\<close>

primrec remove_list :: "string \<Rightarrow> uint32 list \<Rightarrow> (uint32 \<rightharpoonup> string) \<Rightarrow> uint32 list \<times> (uint32 \<rightharpoonup> string)" where
  "remove_list nodeID [] m = ([], m)"
| "remove_list nodeID (t # ts) m =
     (if token_owner m t = nodeID then remove_list nodeID ts (m(t := None))
      else map_prod (Cons t) id (remove_list nodeID ts m))"

lemma remove_loop_stop: "\<not> i < length arr \<Longrightarrow> remove_loop nodeID i w arr m = (take w arr, m)"
  by (simp add: remove_loop.simps [of nodeID i])

lemma remove_loop_step:
  "i < length arr \<Longrightarrow> remove_loop nodeID i w arr m =
     (if token_owner m (arr ! i) = nodeID then remove_loop nodeID (Suc i) w arr (m(arr ! i := None))
      else remove_loop nodeID (Suc i) (Suc w) (arr[w := arr ! i]) m)"
  by (simp add: remove_loop.simps [of nodeID i])

lemma remove_loop_list:
  "w \<le> i \<Longrightarrow> i \<le> length arr \<Longrightarrow>
   remove_loop nodeID i w arr m = map_prod ((@) (take w arr)) id (remove_list nodeID (drop i arr) m)"
proof (induction nodeID i w arr m rule: remove_loop.induct)
  case (1 nodeID i w arr m)
  consider "\<not> i < length arr" | "i < length arr" "token_owner m (arr ! i) = nodeID"
    | "i < length arr" "token_owner m (arr ! i) \<noteq> nodeID" by blast
  then show ?case
  proof cases
    case 1
    with "1.prems" show ?thesis by (simp add: remove_loop_stop)
  next
    case 2
    then have "drop i arr = arr ! i # drop (Suc i) arr" by (simp add: Cons_nth_drop_Suc)
    with 2 "1.IH"(1) [OF 2(1) refl 2(2)] "1.prems" show ?thesis by (simp add: remove_loop_step fun_upd_def)
  next
    case 3
    have "take (Suc w) (arr[w := arr ! i]) = take w arr @ [arr ! i]" "drop (Suc i) (arr[w := arr ! i]) = drop (Suc i) arr"
      using 3(1) "1.prems" by (simp_all add: take_Suc_conv_app_nth)
    moreover have "drop i arr = arr ! i # drop (Suc i) arr" using 3(1) by (simp add: Cons_nth_drop_Suc)
    moreover have "remove_loop nodeID i w arr m = remove_loop nodeID (Suc i) (Suc w) (arr[w := arr ! i]) m"
      using 3 by (simp add: remove_loop_step)
    ultimately show ?thesis using 3 "1.IH"(2) [OF 3(1) refl 3(2)] "1.prems"
      by (cases "remove_list nodeID (drop (Suc i) arr) m") simp
  qed
qed

lemma remove_list_filter:
  assumes "distinct ts"
  shows "remove_list nodeID ts m = (filter (\<lambda>t. token_owner m t \<noteq> nodeID) ts,
    \<lambda>t. if t \<in> set ts \<and> token_owner m t = nodeID then None else m t)"
  using assms
proof (induction ts arbitrary: m)
  case (Cons t ts)
  have "filter (\<lambda>u. token_owner (m(t := None)) u \<noteq> nodeID) ts = filter (\<lambda>u. token_owner m u \<noteq> nodeID) ts"
    using Cons.prems by (intro filter_cong) (auto simp: token_owner_def)
  with Cons show ?case by (auto simp: fun_eq_iff token_owner_def)
qed simp

section \<open>The invariant of the ring\<close>

text \<open>
  The token list is sorted without duplicates and lists exactly the tokens of the map, and
  every token belongs to a registered node.
\<close>

definition ring_inv :: "Ring \<Rightarrow> bool" where
  "ring_inv r \<longleftrightarrow> sorted (sortedTokens r) \<and> distinct (sortedTokens r) \<and>
     set (sortedTokens r) = dom (tokens r) \<and> ran (tokens r) \<subseteq> Mapping.keys (nodeAddrs r)"

text \<open>What additions alone keep, collisions or not.\<close>

definition ring_wf :: "Ring \<Rightarrow> bool" where
  "ring_wf r \<longleftrightarrow> sorted (sortedTokens r) \<and> set (sortedTokens r) = dom (tokens r) \<and>
     ran (tokens r) \<subseteq> Mapping.keys (nodeAddrs r)"

lemma ring_inv_wf: "ring_inv r \<Longrightarrow> ring_wf r"
  by (simp add: ring_inv_def ring_wf_def)

text \<open>The tokens of a node to be added collide neither with each other nor with those on the ring.\<close>

definition collision_free :: "string \<Rightarrow> Ring \<Rightarrow> bool" where
  "collision_free nodeID r \<longleftrightarrow>
     distinct (map (node_token nodeID) [0..<virtualNodes r]) \<and>
     list_all (\<lambda>i. node_token nodeID i \<notin> set (sortedTokens r)) [0..<virtualNodes r]"

definition ring_owner :: "string \<Rightarrow> Ring \<Rightarrow> string option" where
  "ring_owner key r = map_option fst (ring_Get key r)"

lemma ring_Add_fields:
  "nodeAddrs (ring_Add n a r) = Mapping.update n a (nodeAddrs r)"
  "tokens (ring_Add n a r) = (\<lambda>t. if t \<in> token_set (virtualNodes r) n then Some n else tokens r t)"
  "sortedTokens (ring_Add n a r) = sort (sortedTokens r @ map (node_token n) [0..<virtualNodes r])"
  "virtualNodes (ring_Add n a r) = virtualNodes r"
  by (simp_all add: ring_Add_def add_tokens_eq)

lemma ring_Remove_fields:
  assumes "ring_inv r"
  shows "nodeAddrs (ring_Remove n r) = Mapping.delete n (nodeAddrs r)"
    "tokens (ring_Remove n r) = (\<lambda>t. if tokens r t = Some n then None else tokens r t)"
    "sortedTokens (ring_Remove n r) = filter (\<lambda>t. tokens r t \<noteq> Some n) (sortedTokens r)"
    "virtualNodes (ring_Remove n r) = virtualNodes r"
proof -
  have own: "token_owner (tokens r) t = n \<longleftrightarrow> tokens r t = Some n" if "t \<in> set (sortedTokens r)" for t
    using assms that by (auto simp: ring_inv_def token_owner_def)
  have eq: "remove_loop n 0 0 (sortedTokens r) (tokens r) =
     (filter (\<lambda>t. token_owner (tokens r) t \<noteq> n) (sortedTokens r),
      \<lambda>t. if t \<in> set (sortedTokens r) \<and> token_owner (tokens r) t = n then None else tokens r t)"
    using remove_loop_list [of 0 0 "sortedTokens r" n "tokens r"] remove_list_filter [of "sortedTokens r" n "tokens r"] assms
    by (simp add: ring_inv_def)
  show "nodeAddrs (ring_Remove n r) = Mapping.delete n (nodeAddrs r)" "virtualNodes (ring_Remove n r) = virtualNodes r"
    by (simp_all add: ring_Remove_def eq)
  show "sortedTokens (ring_Remove n r) = filter (\<lambda>t. tokens r t \<noteq> Some n) (sortedTokens r)"
    using own by (auto simp: ring_Remove_def eq intro: filter_cong)
  have "t \<in> set (sortedTokens r)" if "tokens r t = Some n" for t
    using assms that by (auto simp: ring_inv_def)
  then show "tokens (ring_Remove n r) = (\<lambda>t. if tokens r t = Some n then None else tokens r t)"
    using own by (auto simp: ring_Remove_def eq fun_eq_iff)
qed

lemma ring_inv_New: "ring_inv NewRing"
  by (simp add: ring_inv_def NewRing_def)

lemma ring_wf_New: "ring_wf NewRing"
  by (simp add: ring_wf_def NewRing_def)

lemma ring_wf_Add:
  assumes "ring_wf r"
  shows "ring_wf (ring_Add n a r)"
proof -
  have "dom (tokens (ring_Add n a r)) = dom (tokens r) \<union> token_set (virtualNodes r) n"
    by (auto simp: ring_Add_fields dom_def)
  moreover have "ran (tokens (ring_Add n a r)) \<subseteq> insert n (ran (tokens r))"
    by (auto simp: ring_Add_fields ran_def)
  ultimately show ?thesis using assms by (auto simp: ring_wf_def ring_Add_fields)
qed

lemma collision_free_tokens:
  assumes "collision_free n r"
  shows "token_set (virtualNodes r) n \<inter> set (sortedTokens r) = {}"
  using assms by (auto simp: collision_free_def list_all_iff)

lemma ring_Add_inv:
  assumes "ring_inv r" "collision_free n r"
  shows "ring_inv (ring_Add n a r)"
proof -
  have "distinct (sortedTokens r @ map (node_token n) [0..<virtualNodes r])"
    using assms by (auto simp: ring_inv_def collision_free_def list_all_iff)
  moreover have "dom (tokens (ring_Add n a r)) = dom (tokens r) \<union> token_set (virtualNodes r) n"
    by (auto simp: ring_Add_fields dom_def)
  moreover have "ran (tokens (ring_Add n a r)) \<subseteq> insert n (ran (tokens r))"
    by (auto simp: ring_Add_fields ran_def)
  ultimately show ?thesis using assms(1) by (auto simp: ring_inv_def ring_Add_fields)
qed

lemma ring_Remove_inv:
  assumes "ring_inv r"
  shows "ring_inv (ring_Remove n r)"
proof -
  have "ran (tokens (ring_Remove n r)) \<subseteq> ran (tokens r) - {n}"
    by (auto simp: ring_Remove_fields [OF assms] ran_def)
  moreover have "dom (tokens (ring_Remove n r)) = {t \<in> dom (tokens r). tokens r t \<noteq> Some n}"
    by (auto simp: ring_Remove_fields [OF assms] dom_def)
  ultimately show ?thesis using assms
    by (auto simp: ring_inv_def ring_Remove_fields [OF assms] intro: sorted_wrt_filter)
qed

section \<open>Lookups\<close>

lemma ring_Get_clockwise:
  assumes "sorted (sortedTokens r)" "sortedTokens r \<noteq> []"
    and "n = token_owner (tokens r) (clockwise (set (sortedTokens r)) (hashKey key))"
  shows "ring_Get key r = Some (n, case Mapping.lookup (nodeAddrs r) n of None \<Rightarrow> '''' | Some a \<Rightarrow> a)"
  using search_clockwise [OF assms(1,2), of "hashKey key"] assms(2,3)
  by (simp add: ring_Get_def Let_def)

lemma ring_owner_clockwise:
  assumes "ring_inv r"
  shows "ring_owner key r = (if sortedTokens r = [] then None
    else tokens r (clockwise (set (sortedTokens r)) (hashKey key)))"
proof (cases "sortedTokens r = []")
  case True
  then show ?thesis by (simp add: ring_owner_def ring_Get_def)
next
  case False
  then have "clockwise (set (sortedTokens r)) (hashKey key) \<in> dom (tokens r)"
    using clockwise_in [of "set (sortedTokens r)" "hashKey key"] assms by (simp add: ring_inv_def)
  with False assms show ?thesis
    by (auto simp: ring_owner_def ring_Get_clockwise [OF _ _ refl] ring_inv_def token_owner_def)
qed

text \<open>A lookup on a non-empty ring names a registered node with its address.\<close>

lemma ring_Get_node:
  assumes "ring_wf r" "sortedTokens r \<noteq> []"
  shows "\<exists>n a. ring_Get key r = Some (n, a) \<and> ring_NodeAddr n r = Some a"
proof -
  let ?t = "clockwise (set (sortedTokens r)) (hashKey key)"
  have "?t \<in> dom (tokens r)"
    using clockwise_in [of "set (sortedTokens r)" "hashKey key"] assms by (simp add: ring_wf_def)
  then obtain n where n: "tokens r ?t = Some n" by auto
  then have "n \<in> Mapping.keys (nodeAddrs r)" using assms(1) by (auto simp: ring_wf_def ran_def)
  then obtain a where "Mapping.lookup (nodeAddrs r) n = Some a" by (auto simp: keys_lookup_iff)
  with n assms show ?thesis
    by (simp add: ring_Get_clockwise [OF _ _ refl] ring_wf_def ring_NodeAddr_def token_owner_def)
qed

lemma ring_Add_owner:
  assumes "ring_inv r" "collision_free n r"
  shows "ring_owner key (ring_Add n a r) \<in> {Some n, ring_owner key r}"
proof -
  let ?T = "set (sortedTokens r)" and ?N = "token_set (virtualNodes r) n" and ?p = "hashKey key"
  note new = ring_owner_clockwise [OF ring_Add_inv [OF assms, of a], of key]
  have T: "set (sortedTokens (ring_Add n a r)) = ?T \<union> ?N" by (auto simp: ring_Add_fields)
  show ?thesis
  proof (cases "?T \<union> ?N = {}")
    case True
    then show ?thesis using new T ring_owner_clockwise [OF assms(1), of key] by (auto simp: ring_Add_fields)
  next
    case False
    then have "sortedTokens (ring_Add n a r) \<noteq> []" using T by (metis list.set(1))
    then have new: "ring_owner key (ring_Add n a r) = tokens (ring_Add n a r) (clockwise (?T \<union> ?N) ?p)"
      using new unfolding T by simp
    from False have "clockwise (?T \<union> ?N) ?p \<in> ?T \<union> ?N" by (intro clockwise_in) auto
    moreover have "ring_owner key (ring_Add n a r) = Some n" if "clockwise (?T \<union> ?N) ?p \<in> ?N"
      using new that by (simp add: ring_Add_fields(2))
    moreover have "ring_owner key (ring_Add n a r) = ring_owner key r" if "clockwise (?T \<union> ?N) ?p \<in> ?T" "clockwise (?T \<union> ?N) ?p \<notin> ?N"
    proof -
      have "clockwise ?T ?p = clockwise (?T \<union> ?N) ?p" using that(1) by (intro clockwise_subset) auto
      moreover have "sortedTokens r \<noteq> []" using that(1) by auto
      ultimately show ?thesis
        using new that(2) ring_owner_clockwise [OF assms(1), of key] by (simp add: ring_Add_fields(2))
    qed
    ultimately show ?thesis by blast
  qed
qed

lemma ring_Remove_owner:
  assumes "ring_inv r"
  shows "ring_owner key r \<noteq> Some n \<Longrightarrow> ring_owner key (ring_Remove n r) = ring_owner key r"
    and "ring_owner key (ring_Remove n r) \<noteq> Some n"
proof -
  let ?T = "set (sortedTokens r)" and ?S = "set (sortedTokens (ring_Remove n r))" and ?p = "hashKey key"
  note new = ring_owner_clockwise [OF ring_Remove_inv [OF assms, of n], of key]
  note old = ring_owner_clockwise [OF assms, of key]
  have S: "?S = {t \<in> ?T. tokens r t \<noteq> Some n}" by (simp add: ring_Remove_fields [OF assms])
  show "ring_owner key (ring_Remove n r) \<noteq> Some n"
    using new by (auto simp: ring_Remove_fields(2) [OF assms] split: if_splits)
  assume other: "ring_owner key r \<noteq> Some n"
  show "ring_owner key (ring_Remove n r) = ring_owner key r"
  proof (cases "sortedTokens r = []")
    case True
    then show ?thesis using new old S by auto
  next
    case False
    then have "clockwise ?T ?p \<in> ?S" using other old S clockwise_in [of ?T ?p] by auto
    moreover from this have "clockwise ?S ?p = clockwise ?T ?p" using S by (intro clockwise_subset) auto
    ultimately show ?thesis using False new old other
      by (auto simp: ring_Remove_fields(2) [OF assms] simp del: ring_Remove_fields(3))
  qed
qed

lemma ring_Remove_Add:
  assumes "ring_inv r" "collision_free n r" "n \<notin> ring_Nodes r"
  shows "ring_Remove n (ring_Add n a r) = r"
proof -
  note inv = ring_Add_inv [OF assms(1,2), of a]
  have no: "tokens r t \<noteq> Some n" for t using assms(1,3) by (auto simp: ring_inv_def ring_Nodes_def ran_def)
  have out: "t \<notin> token_set (virtualNodes r) n" if "t \<in> set (sortedTokens r)" for t
    using collision_free_tokens [OF assms(2)] that by blast
  have "sortedTokens (ring_Remove n (ring_Add n a r)) = sortedTokens r"
    using out no assms(1)
    by (simp add: ring_Remove_fields(3) [OF inv] ring_Add_fields filter_sort ring_inv_def sorted_sort_id
        cong: filter_cong)
  moreover have "tokens (ring_Remove n (ring_Add n a r)) = tokens r"
  proof
    fix t
    have "tokens r t = None" if "t \<in> token_set (virtualNodes r) n"
      using collision_free_tokens [OF assms(2)] that assms(1) by (auto simp: ring_inv_def)
    then show "tokens (ring_Remove n (ring_Add n a r)) t = tokens r t"
      using no by (auto simp: ring_Remove_fields(2) [OF inv] ring_Add_fields(2))
  qed
  moreover have "nodeAddrs (ring_Remove n (ring_Add n a r)) = nodeAddrs r"
    using assms(3) unfolding ring_Remove_fields(1) [OF inv] ring_Add_fields(1)
    by (intro mapping_eqI) (auto simp: mapping_simps ring_Nodes_def keys_lookup_iff)
  ultimately show ?thesis by (simp add: ring_Remove_fields(4) [OF inv] ring_Add_fields(4))
qed

section \<open>Properties\<close>

text \<open>A ring with two tokens per node, for the examples below.\<close>

definition small_ring :: Ring where
  "small_ring = ring_Add ''node1'' ''node1:9001'' (NewRing\<lparr>virtualNodes := 2\<rparr>)"

lemma small_ring_inv: "ring_inv small_ring"
  unfolding small_ring_def
proof (rule ring_Add_inv)
  show "ring_inv (NewRing\<lparr>virtualNodes := 2\<rparr>)" by (simp add: ring_inv_def NewRing_def)
  show "collision_free ''node1'' (NewRing\<lparr>virtualNodes := 2\<rparr>)" by code_simp
qed

lemma small_ring_free: "collision_free ''node2'' small_ring"
  by code_simp

text \<open>C15. The binary search routes clockwise: on a sorted, non-empty token list \<open>Get\<close> returns the node of
  the first token at or after the key's hash, and of the first token of all when the hash lies
  beyond the last.\<close>

theorem ring_routes_clockwise:
  assumes "sorted (sortedTokens r)" "sortedTokens r \<noteq> []"
    and "n = token_owner (tokens r) (clockwise (set (sortedTokens r)) (hashKey key))"
  shows "ring_Get key r = Some (n, case Mapping.lookup (nodeAddrs r) n of None \<Rightarrow> '''' | Some a \<Rightarrow> a)"
  using assms by (rule ring_Get_clockwise)

theorem ring_routes_clockwise_witness:
  "ring_Get ''product:42'' small_ring = Some (''node1'', ''node1:9001'')"
proof -
  have "sorted (sortedTokens small_ring)" using small_ring_inv by (simp add: ring_inv_def)
  moreover have "sortedTokens small_ring \<noteq> []" by code_simp
  moreover have "''node1'' = token_owner (tokens small_ring)
      (clockwise (set (sortedTokens small_ring)) (hashKey ''product:42''))" by code_simp
  moreover have "Mapping.lookup (nodeAddrs small_ring) ''node1'' = Some ''node1:9001''"
    by (simp add: small_ring_def ring_Add_fields(1))
  ultimately show ?thesis using ring_routes_clockwise [of small_ring "''node1''" "''product:42''"] by simp
qed



text \<open>C8. Removing a node from a well-formed ring keeps the invariant, leaves every key of another node where
  it was, and leaves no key with the node removed; the in-place filtering of the shared array
  loses no token.\<close>

theorem ring_remove_moves_only_own_keys:
  assumes "ring_inv r"
  shows "ring_inv (ring_Remove n r) \<and> ring_owner key (ring_Remove n r) \<noteq> Some n \<and>
    (ring_owner key r = Some n \<or> ring_owner key (ring_Remove n r) = ring_owner key r)"
  using ring_Remove_inv [OF assms] ring_Remove_owner [OF assms] by blast

theorem ring_remove_moves_only_own_keys_witness:
  "ring_inv (ring_Remove ''node2'' (ring_Add ''node2'' ''node2:9002'' small_ring)) \<and>
   ring_owner ''product:42'' (ring_Remove ''node2'' (ring_Add ''node2'' ''node2:9002'' small_ring)) \<noteq> Some ''node2''"
  using ring_remove_moves_only_own_keys [OF ring_Add_inv [OF small_ring_inv small_ring_free]] by blast






end
