(* ===== verification/GoStrings.thy ===== *)
theory GoStrings
  imports Ring
begin

text \<open>
  The functions of Go's \<open>strings\<close> and \<open>strconv\<close> packages that the configuration, the HTTP
  layer and the proxy call. Strings are byte sequences and are taken to be ASCII where the
  library looks at characters (\<open>TrimSpace\<close>, \<open>ToLower\<close>).
\<close>

section \<open>Package strings\<close>

text \<open>\<open>strings.Split\<close> with a separator of one byte: there is always at least one part.\<close>

fun split_on :: "char \<Rightarrow> string \<Rightarrow> string list" where
  "split_on c [] = [[]]"
| "split_on c (x # xs) = (if x = c then [] # split_on c xs
     else (case split_on c xs of [] \<Rightarrow> [[x]] | p # ps \<Rightarrow> (x # p) # ps))"

text \<open>\<open>strings.SplitN\<close> with a separator of one byte and limit 2.\<close>

definition split_first :: "char \<Rightarrow> string \<Rightarrow> string list" where
  "split_first c s = (case dropWhile (\<lambda>x. x \<noteq> c) s of
     [] \<Rightarrow> [s]
   | _ # rest \<Rightarrow> [takeWhile (\<lambda>x. x \<noteq> c) s, rest])"

definition is_space :: "char \<Rightarrow> bool" where
  "is_space c \<longleftrightarrow> c \<in> {CHR 0x09, CHR 0x0A, CHR 0x0B, CHR 0x0C, CHR 0x0D, CHR 0x20}"

definition TrimRight :: "(char \<Rightarrow> bool) \<Rightarrow> string \<Rightarrow> string" where
  "TrimRight P s = rev (dropWhile P (rev s))"

definition TrimSpace :: "string \<Rightarrow> string" where
  "TrimSpace s = TrimRight is_space (dropWhile is_space s)"

text \<open>\<open>strings.Index\<close> for a pattern of one byte; \<open>None\<close> is -1.\<close>

fun Index :: "char \<Rightarrow> string \<Rightarrow> nat option" where
  "Index c [] = None"
| "Index c (x # xs) = (if x = c then Some 0 else map_option Suc (Index c xs))"

fun HasPrefix :: "string \<Rightarrow> string \<Rightarrow> bool" where
  "HasPrefix [] s = True"
| "HasPrefix (p # ps) [] = False"
| "HasPrefix (p # ps) (x # xs) = (p = x \<and> HasPrefix ps xs)"

definition TrimPrefix :: "string \<Rightarrow> string \<Rightarrow> string" where
  "TrimPrefix p s = (if HasPrefix p s then drop (length p) s else s)"

fun Contains :: "string \<Rightarrow> string \<Rightarrow> bool" where
  "Contains p [] = (p = [])"
| "Contains p (x # xs) = (HasPrefix p (x # xs) \<or> Contains p xs)"

text \<open>\<open>strings.ReplaceAll\<close> of a non-empty pattern by the empty string.\<close>

function remove_all :: "string \<Rightarrow> string \<Rightarrow> string" where
  "remove_all p s = (case s of [] \<Rightarrow> []
     | x # xs \<Rightarrow> if p \<noteq> [] \<and> HasPrefix p s then remove_all p (drop (length p) s) else x # remove_all p xs)"
  by pat_completeness auto
termination
  by (relation "measure (length \<circ> snd)") (auto simp: neq_Nil_conv)

definition lower :: "char \<Rightarrow> char" where
  "lower c = (if 65 \<le> (of_char c :: nat) \<and> (of_char c :: nat) \<le> 90 then char_of (of_char c + 32 :: nat) else c)"

definition ToLower :: "string \<Rightarrow> string" where
  "ToLower = map lower"

section \<open>Package strconv\<close>

definition is_digit :: "char \<Rightarrow> bool" where
  "is_digit c \<longleftrightarrow> 48 \<le> (of_char c :: nat) \<and> (of_char c :: nat) \<le> 57"

definition digit_val :: "char \<Rightarrow> int" where
  "digit_val c = int (of_char c) - 48"

definition digits_val :: "string \<Rightarrow> int" where
  "digits_val s = foldl (\<lambda>n c. 10 * n + digit_val c) 0 s"

text \<open>An optional sign, at least one digit, nothing else, and a value that fits 64 bits.\<close>

definition Atoi :: "string \<Rightarrow> int option" where
  "Atoi s = (let neg = HasPrefix ''-'' s; ds = (if neg \<or> HasPrefix ''+'' s then tl s else s);
        n = (if neg then - digits_val ds else digits_val ds)
      in if ds \<noteq> [] \<and> list_all is_digit ds \<and> in_int64 n then Some n else None)"

section \<open>Joining and splitting\<close>

fun join_with :: "char \<Rightarrow> string list \<Rightarrow> string" where
  "join_with c [] = []"
| "join_with c [p] = p"
| "join_with c (p # q # ps) = p @ c # join_with c (q # ps)"

lemma join_with_Nil [simp]: "join_with c ps = [] \<longleftrightarrow> ps = [] \<or> ps = [[]]"
  by (induction c ps rule: join_with.induct) simp_all

lemma split_on_nonempty [simp]: "split_on c s \<noteq> []"
  by (induction s) (auto split: list.splits)

lemma split_on_append: "c \<notin> set p \<Longrightarrow> split_on c (p @ c # s) = p # split_on c s"
  by (induction p) auto

lemma split_on_single: "c \<notin> set p \<Longrightarrow> split_on c p = [p]"
  by (induction p) auto

lemma split_on_join_with:
  "ps \<noteq> [] \<Longrightarrow> list_all (\<lambda>p. c \<notin> set p) ps \<Longrightarrow> split_on c (join_with c ps) = ps"
  by (induction c ps rule: join_with.induct) (simp_all add: split_on_append split_on_single)

lemma split_on_parts: "p \<in> set (split_on c s) \<Longrightarrow> c \<notin> set p"
  by (induction s arbitrary: p) (auto split: if_splits list.splits)

lemma TrimRight_id: "(s \<noteq> [] \<Longrightarrow> \<not> P (last s)) \<Longrightarrow> TrimRight P s = s"
  by (cases s rule: rev_cases) (simp_all add: TrimRight_def)

lemma TrimSpace_id: "list_all (\<lambda>x. \<not> is_space x) s \<Longrightarrow> TrimSpace s = s"
  by (cases s) (auto simp: TrimSpace_def list_all_iff split: if_splits intro!: TrimRight_id)

lemma set_TrimRight: "set (TrimRight P s) \<subseteq> set s"
  using set_dropWhileD [of _ P "rev s"] by (auto simp: TrimRight_def)

lemma set_TrimSpace: "set (TrimSpace s) \<subseteq> set s"
  using set_TrimRight [of is_space "dropWhile is_space s"] set_dropWhileD [of _ is_space s]
  by (auto simp: TrimSpace_def)

lemma Index_append: "c \<notin> set p \<Longrightarrow> Index c (p @ c # s) = Some (length p)"
  by (induction p) auto

lemma Index_SomeD: "Index c s = Some i \<Longrightarrow> i < length s \<and> s ! i = c \<and> c \<notin> set (take i s)"
  by (induction s arbitrary: i) (auto split: if_splits)

lemma HasPrefix_iff: "HasPrefix p s \<longleftrightarrow> (\<exists>t. s = p @ t)"
  by (induction p s rule: HasPrefix.induct) auto

lemma Contains_iff: "Contains p s \<longleftrightarrow> (\<exists>u t. s = u @ p @ t)"
proof (induction p s rule: Contains.induct)
  case (2 p x xs)
  show ?case
  proof
    assume "Contains p (x # xs)"
    then consider "HasPrefix p (x # xs)" | "Contains p xs" by auto
    then show "\<exists>u t. x # xs = u @ p @ t"
    proof cases
      case 1
      then show ?thesis by (metis HasPrefix_iff append_Nil)
    next
      case b: 2
      then show ?thesis using 2 by (metis append_Cons)
    qed
  next
    assume "\<exists>u t. x # xs = u @ p @ t"
    then obtain u t where ut: "x # xs = u @ p @ t" by blast
    show "Contains p (x # xs)"
    proof (cases u)
      case Nil
      with ut have "HasPrefix p (x # xs)" by (simp add: HasPrefix_iff)
      then show ?thesis by simp
    next
      case (Cons y ys)
      with ut 2 have "Contains p xs" by auto
      then show ?thesis by simp
    qed
  qed
qed auto

section \<open>Numbers\<close>

lemma digits_val_snoc [simp]: "digits_val (s @ [c]) = 10 * digits_val s + digit_val c"
  by (simp add: digits_val_def)

lemma digits_val_Nil [simp]: "digits_val [] = 0"
  by (simp add: digits_val_def)

lemma digits_val_nonneg: "list_all is_digit s \<Longrightarrow> 0 \<le> digits_val s"
  by (induction s rule: rev_induct) (auto simp: digit_val_def is_digit_def)

lemma digit_of: "n < 10 \<Longrightarrow> is_digit (char_of (48 + n))" "n < 10 \<Longrightarrow> digit_val (char_of (48 + n)) = int n" for n :: nat
  by (simp_all add: is_digit_def digit_val_def of_char_of)

lemma decimal_nonempty: "decimal n \<noteq> []"
  by (subst decimal.simps) simp

lemma decimal_all_digits: "list_all is_digit (decimal n)"
proof (induction n rule: decimal.induct)
  case (1 n)
  then show ?case by (subst decimal.simps) (simp add: digit_of)
qed

lemma digits_val_decimal: "digits_val (decimal n) = int n"
proof (induction n rule: decimal.induct)
  case (1 n)
  have "10 * int (n div 10) + int (n mod 10) = int n" by presburger
  with 1 digits_val_snoc [of "[]"] show ?case by (subst decimal.simps) (simp add: digit_of)
qed

lemmas decimal_digits = decimal_nonempty decimal_all_digits digits_val_decimal

lemma no_sign_decimal: "\<not> HasPrefix ''-'' (decimal n)" "\<not> HasPrefix ''+'' (decimal n)"
  using decimal_digits(1,2) [of n] by (cases "decimal n"; auto simp: is_digit_def)+

lemma Atoi_decimal: "int n < 2 ^ 63 \<Longrightarrow> Atoi (decimal n) = Some (int n)"
  using no_sign_decimal [of n] decimal_digits [of n] by (simp add: Atoi_def in_int64_def)

lemma Atoi_range: "Atoi s = Some n \<Longrightarrow> in_int64 n"
  by (auto simp: Atoi_def Let_def split: if_splits)

end
