(* ===== verification/Cluster.thy ===== *)
theory Cluster
  imports CachePolicies Ring
begin

text \<open>
  The rest of \<open>src/internal/cluster\<close> but the gRPC transport: node health (\<open>node.go\<close>), the coordinator
  (\<open>coordinator.go\<close>), the cache server (\<open>cacheserver.go\<close>, \<open>util.go\<close>), and how \<open>main\<close> of
  \<open>src/cmd/cachenode\<close> builds them.
\<close>

section \<open>The code: node health\<close>

record NodeHealth =
  nh_nodeID :: string
  nh_addr :: string
  nh_available :: bool
  nh_lastProbeAt :: time
  nh_lastSeenAt :: time

definition NewNodeHealth :: "string \<Rightarrow> string \<Rightarrow> NodeHealth" where
  "NewNodeHealth nodeID addr =
     \<lparr>nh_nodeID = nodeID, nh_addr = addr, nh_available = True, nh_lastProbeAt = 0, nh_lastSeenAt = 0\<rparr>"

definition MarkAvailable :: "time \<Rightarrow> NodeHealth \<Rightarrow> NodeHealth" where
  "MarkAvailable now n = n\<lparr>nh_available := True, nh_lastSeenAt := now\<rparr>"

definition MarkUnavailable :: "NodeHealth \<Rightarrow> NodeHealth" where
  "MarkUnavailable n = n\<lparr>nh_available := False\<rparr>"

definition IsAvailable :: "NodeHealth \<Rightarrow> bool" where
  "IsAvailable n = nh_available n"

section \<open>The code: the coordinator\<close>

datatype cluster_error = ErrNoCoordinator | ErrRoutingMismatch

record RouteResult =
  rr_NodeID :: string
  rr_Addr :: string

definition noRoute :: RouteResult where
  "noRoute = \<lparr>rr_NodeID = '''', rr_Addr = ''''\<rparr>"

text \<open>The trackers are reached only through the \<open>health\<close> map, so the map holds them directly.\<close>

record Coordinator =
  co_ring :: Ring
  co_health :: "(string, NodeHealth) mapping"
  co_isLeader :: bool

definition NewCoordinator :: "Ring \<Rightarrow> (string, NodeHealth) mapping \<Rightarrow> Coordinator" where
  "NewCoordinator ring nodeHealthMap = \<lparr>co_ring = ring, co_health = nodeHealthMap, co_isLeader = False\<rparr>"

definition Route :: "string \<Rightarrow> Coordinator \<Rightarrow> RouteResult \<times> bool \<times> cluster_error option" where
  "Route key c =
     (if \<not> co_isLeader c then (noRoute, False, Some ErrNoCoordinator)
      else case ring_Get key (co_ring c) of
        None \<Rightarrow> (noRoute, False, Some ErrNoCoordinator)
      | Some (nodeID, addr) \<Rightarrow>
          (case Mapping.lookup (co_health c) nodeID of
             None \<Rightarrow> (noRoute, False, None)
           | Some nodeHealth \<Rightarrow>
               if \<not> IsAvailable nodeHealth then (noRoute, False, None)
               else (\<lparr>rr_NodeID = nodeID, rr_Addr = addr\<rparr>, True, None)))"

definition ValidateOwnership :: "string \<Rightarrow> string \<Rightarrow> Coordinator \<Rightarrow> cluster_error option" where
  "ValidateOwnership key nodeID c = (case ring_Get key (co_ring c) of
     None \<Rightarrow> Some ErrNoCoordinator
   | Some (ownerID, _) \<Rightarrow> if ownerID \<noteq> nodeID then Some ErrRoutingMismatch else None)"

definition SetLeader :: "bool \<Rightarrow> Coordinator \<Rightarrow> Coordinator" where
  "SetLeader isLeader c = c\<lparr>co_isLeader := isLeader\<rparr>"

definition IsLeader :: "Coordinator \<Rightarrow> bool" where
  "IsLeader c = co_isLeader c"

definition UpdateNodeHealth :: "time \<Rightarrow> string \<Rightarrow> bool \<Rightarrow> Coordinator \<Rightarrow> Coordinator" where
  "UpdateNodeHealth now nodeID available c = (case Mapping.lookup (co_health c) nodeID of
     None \<Rightarrow> c
   | Some nodeHealth \<Rightarrow>
       c\<lparr>co_health := Mapping.update nodeID
            (if available then MarkAvailable now nodeHealth else MarkUnavailable nodeHealth) (co_health c)\<rparr>)"

section \<open>The code: the cache server\<close>

definition secondsToDuration :: "int \<Rightarrow> duration" where
  "secondsToDuration seconds = int64 (seconds * Second)"

record CacheNodeMetrics =
  m_hits :: int
  m_misses :: int
  m_evictions :: int

text \<open>
  The server's \<open>policy\<close> field is the policy object of its cache, and \<open>isLeader\<close> is a function that is
  called when \<open>Health\<close> is; the model reads the one from the cache and takes the other's result.
\<close>

record 'p CacheServer =
  cs_nodeID :: string
  cs_cache :: "'p InMemoryCache"
  cs_metrics :: CacheNodeMetrics

definition NewCacheServer :: "string \<Rightarrow> 'p InMemoryCache \<Rightarrow> 'p CacheServer" where
  "NewCacheServer nodeID c =
     \<lparr>cs_nodeID = nodeID, cs_cache = c, cs_metrics = \<lparr>m_hits = 0, m_misses = 0, m_evictions = 0\<rparr>\<rparr>"

definition server_Get :: "'p EvictionPolicy \<Rightarrow> clock \<Rightarrow> string \<Rightarrow> 'p CacheServer \<Rightarrow> (bytes option \<times> 'p CacheServer) option" where
  "server_Get P clk key s = do {
     (r, c) \<leftarrow> cache_Get P clk key (cs_cache s);
     let m = cs_metrics s;
     Some (r, s\<lparr>cs_cache := c, cs_metrics := (case r of
        Some _ \<Rightarrow> m\<lparr>m_hits := int64 (m_hits m + 1)\<rparr>
      | None \<Rightarrow> m\<lparr>m_misses := int64 (m_misses m + 1)\<rparr>)\<rparr>) }"

definition server_Set :: "'p EvictionPolicy \<Rightarrow> clock \<Rightarrow> string \<Rightarrow> bytes \<Rightarrow> int \<Rightarrow> 'p CacheServer \<Rightarrow>
    (cache_error option \<times> 'p CacheServer) option" where
  "server_Set P clk key value ttlSeconds s = do {
     (err, c) \<leftarrow> cache_Set P clk key value (secondsToDuration ttlSeconds) (cs_cache s);
     Some (err, s\<lparr>cs_cache := c\<rparr>) }"

definition server_Delete :: "'p EvictionPolicy \<Rightarrow> string \<Rightarrow> 'p CacheServer \<Rightarrow> 'p CacheServer option" where
  "server_Delete P key s = do { c \<leftarrow> cache_Delete P key (cs_cache s); Some (s\<lparr>cs_cache := c\<rparr>) }"

definition server_Health :: "bool \<Rightarrow> 'p CacheServer \<Rightarrow> bool \<times> bool" where
  "server_Health isLeader s = (True, isLeader)"

definition server_Stats :: "'p EvictionPolicy \<Rightarrow> 'p CacheServer \<Rightarrow> int \<times> int \<times> int \<times> int \<times> string" where
  "server_Stats P s = (m_hits (cs_metrics s), m_misses (cs_metrics s), m_evictions (cs_metrics s),
     int64 (int (cache_Len (cs_cache s))), Name P (c_policy (cs_cache s)))"

definition RecordEviction :: "'p CacheServer \<Rightarrow> 'p CacheServer" where
  "RecordEviction s = s\<lparr>cs_metrics := (cs_metrics s)\<lparr>m_evictions := int64 (m_evictions (cs_metrics s) + 1)\<rparr>\<rparr>"

section \<open>The code: what \<open>main\<close> builds\<close>

record PeerConfig =
  peer_ID :: string
  peer_Addr :: string

definition build_ring :: "string \<Rightarrow> int \<Rightarrow> PeerConfig list \<Rightarrow> Ring" where
  "build_ring nodeID grpcPort peers =
     fold (\<lambda>p. ring_Add (peer_ID p) (peer_Addr p)) peers
       (ring_Add nodeID (nodeID @ '':'' @ decimal_int grpcPort) NewRing)"

text \<open>One tracker per node of the ring, whatever order the nodes are listed in.\<close>

definition build_healthMap :: "Ring \<Rightarrow> (string, NodeHealth) mapping" where
  "build_healthMap ring = Mapping.map_values NewNodeHealth (nodeAddrs ring)"

definition build_coordinator :: "string \<Rightarrow> int \<Rightarrow> PeerConfig list \<Rightarrow> Coordinator" where
  "build_coordinator nodeID grpcPort peers =
     (let ring = build_ring nodeID grpcPort peers in NewCoordinator ring (build_healthMap ring))"

section \<open>Routing\<close>

lemma lookup_build_healthMap:
  "Mapping.lookup (build_healthMap ring) n = map_option (NewNodeHealth n) (Mapping.lookup (nodeAddrs ring) n)"
  by (simp add: build_healthMap_def Mapping.lookup_map_values)

lemma Route_available:
  "Route key c = (res, True, err) \<longleftrightarrow> err = None \<and> co_isLeader c \<and>
     ring_Get key (co_ring c) = Some (rr_NodeID res, rr_Addr res) \<and>
     (\<exists>h. Mapping.lookup (co_health c) (rr_NodeID res) = Some h \<and> IsAvailable h)"
  by (cases res) (auto simp: Route_def noRoute_def split: option.splits)

lemma Route_same_owner:
  assumes "ring_owner key (co_ring c) \<noteq> Some n"
  shows "Route key (UpdateNodeHealth now n b c) = Route key c"
  using assms
  by (auto simp: Route_def UpdateNodeHealth_def ring_owner_def Mapping.lookup_update' split: option.splits)

lemma Route_unavailable:
  assumes "co_isLeader c" "ring_owner key (co_ring c) = Some n"
  shows "Route key (UpdateNodeHealth now n False c) = (noRoute, False, None)"
  using assms
  by (auto simp: Route_def UpdateNodeHealth_def ring_owner_def IsAvailable_def MarkUnavailable_def
      split: option.splits)

section \<open>Statistics\<close>

text \<open>Requests served one after the other, with what each answers.\<close>

datatype serverOp = SrvGet clock string | SrvSet clock string bytes int | SrvDelete string

definition serve :: "'p EvictionPolicy \<Rightarrow> serverOp \<Rightarrow> 'p CacheServer \<Rightarrow> (cacheResult \<times> 'p CacheServer) option" where
  "serve P op s = (case op of
     SrvGet clk key \<Rightarrow> map_option (map_prod Got id) (server_Get P clk key s)
   | SrvSet clk key value ttl \<Rightarrow> map_option (map_prod SetReturned id) (server_Set P clk key value ttl s)
   | SrvDelete key \<Rightarrow> map_option (Pair Deleted) (server_Delete P key s))"

primrec serve_all :: "'p EvictionPolicy \<Rightarrow> serverOp list \<Rightarrow> 'p CacheServer \<Rightarrow> (cacheResult list \<times> 'p CacheServer) option" where
  "serve_all P [] s = Some ([], s)"
| "serve_all P (op # ops) s = do {
     (r, s1) \<leftarrow> serve P op s;
     (rs, s2) \<leftarrow> serve_all P ops s1;
     Some (r # rs, s2) }"

definition srv_clock_ok :: "serverOp \<Rightarrow> bool" where
  "srv_clock_ok op \<longleftrightarrow> (case op of SrvGet clk _ \<Rightarrow> mono clk | _ \<Rightarrow> True)"

definition is_hit :: "cacheResult \<Rightarrow> bool" where
  "is_hit r \<longleftrightarrow> (case r of Got (Some _) \<Rightarrow> True | _ \<Rightarrow> False)"

definition is_miss :: "cacheResult \<Rightarrow> bool" where
  "is_miss r \<longleftrightarrow> (case r of Got None \<Rightarrow> True | _ \<Rightarrow> False)"

lemma hit_miss_simps [simp]:
  "is_hit (Got r) \<longleftrightarrow> r \<noteq> None" "\<not> is_hit (SetReturned e)" "\<not> is_hit Deleted"
  "is_miss (Got r) \<longleftrightarrow> r = None" "\<not> is_miss (SetReturned e)" "\<not> is_miss Deleted"
  by (simp_all add: is_hit_def is_miss_def split: option.splits)

abbreviation count_in :: "('a \<Rightarrow> bool) \<Rightarrow> 'a list \<Rightarrow> int" where
  "count_in Q xs \<equiv> int (length (filter Q xs))"

context eviction_policy
begin

lemma server_Get_correct:
  assumes "cinv (cs_cache s)" "mono clk"
  shows "\<exists>r s'. server_Get P clk k s = Some (r, s') \<and> cinv (cs_cache s') \<and>
    r = fst (spec_Get (clk 0) k (cache_view (cs_cache s))) \<and>
    cs_metrics s' = (case r of Some _ \<Rightarrow> (cs_metrics s)\<lparr>m_hits := int64 (m_hits (cs_metrics s) + 1)\<rparr>
      | None \<Rightarrow> (cs_metrics s)\<lparr>m_misses := int64 (m_misses (cs_metrics s) + 1)\<rparr>)"
  using Get_correct [OF assms, of k] by (auto simp: server_Get_def Let_def)

lemma serve_correct:
  assumes "cinv (cs_cache s)" "srv_clock_ok op"
  shows "\<exists>r s'. serve P op s = Some (r, s') \<and> cinv (cs_cache s') \<and>
    m_hits (cs_metrics s') = (if is_hit r then int64 (m_hits (cs_metrics s) + 1) else m_hits (cs_metrics s)) \<and>
    m_misses (cs_metrics s') = (if is_miss r then int64 (m_misses (cs_metrics s) + 1) else m_misses (cs_metrics s)) \<and>
    m_evictions (cs_metrics s') = m_evictions (cs_metrics s)"
proof (cases op)
  case (SrvGet clk k)
  then have "mono clk" using assms(2) by (simp add: srv_clock_ok_def)
  from server_Get_correct [OF assms(1) this, of k] obtain r s' where s': "server_Get P clk k s = Some (r, s')"
    "cinv (cs_cache s')" "cs_metrics s' = (case r of Some _ \<Rightarrow> (cs_metrics s)\<lparr>m_hits := int64 (m_hits (cs_metrics s) + 1)\<rparr>
      | None \<Rightarrow> (cs_metrics s)\<lparr>m_misses := int64 (m_misses (cs_metrics s) + 1)\<rparr>)" by blast
  with SrvGet show ?thesis by (cases r) (simp_all add: serve_def)
next
  case (SrvSet clk k v ttl)
  with Set_correct [OF assms(1), of clk k v "secondsToDuration ttl"] show ?thesis
    by (auto simp: serve_def server_Set_def intro!: exI [of _ "SetReturned (set_validate (secondsToDuration ttl))"])
next
  case (SrvDelete k)
  with Delete_correct [OF assms(1), of k] show ?thesis
    by (auto simp: serve_def server_Delete_def intro!: exI [of _ Deleted])
qed

lemma int64_count:
  assumes "0 \<le> x" "x + int n < 2 ^ 63" "0 < n"
  shows "int64 (x + 1) = x + 1"
  using assms by (intro int64_small) auto

lemma serve_all_correct:
  assumes "cinv (cs_cache s)" "list_all srv_clock_ok ops"
    and "0 \<le> m_hits (cs_metrics s)" "m_hits (cs_metrics s) + int (length ops) < 2 ^ 63"
    and "0 \<le> m_misses (cs_metrics s)" "m_misses (cs_metrics s) + int (length ops) < 2 ^ 63"
  shows "\<exists>rs s'. serve_all P ops s = Some (rs, s') \<and> cinv (cs_cache s') \<and>
    m_hits (cs_metrics s') = m_hits (cs_metrics s) + count_in is_hit rs \<and>
    m_misses (cs_metrics s') = m_misses (cs_metrics s) + count_in is_miss rs \<and>
    m_evictions (cs_metrics s') = m_evictions (cs_metrics s)"
  using assms
proof (induction ops arbitrary: s)
  case (Cons op ops)
  then obtain r s1 where s1: "serve P op s = Some (r, s1)" "cinv (cs_cache s1)"
    "m_hits (cs_metrics s1) = (if is_hit r then int64 (m_hits (cs_metrics s) + 1) else m_hits (cs_metrics s))"
    "m_misses (cs_metrics s1) = (if is_miss r then int64 (m_misses (cs_metrics s) + 1) else m_misses (cs_metrics s))"
    "m_evictions (cs_metrics s1) = m_evictions (cs_metrics s)"
    using serve_correct [of s op] by auto
  have "int64 (m_hits (cs_metrics s) + 1) = m_hits (cs_metrics s) + 1"
    "int64 (m_misses (cs_metrics s) + 1) = m_misses (cs_metrics s) + 1"
    using Cons.prems by (auto intro!: int64_count [of _ "length (op # ops)"])
  with s1 have c: "m_hits (cs_metrics s1) = m_hits (cs_metrics s) + (if is_hit r then 1 else 0)"
    "m_misses (cs_metrics s1) = m_misses (cs_metrics s) + (if is_miss r then 1 else 0)" by simp_all
  then have "0 \<le> m_hits (cs_metrics s1)" "m_hits (cs_metrics s1) + int (length ops) < 2 ^ 63"
    "0 \<le> m_misses (cs_metrics s1)" "m_misses (cs_metrics s1) + int (length ops) < 2 ^ 63"
    using Cons.prems by (auto split: if_splits)
  with Cons.IH [OF s1(2)] Cons.prems(2) obtain rs s2 where s2: "serve_all P ops s1 = Some (rs, s2)" "cinv (cs_cache s2)"
    "m_hits (cs_metrics s2) = m_hits (cs_metrics s1) + count_in is_hit rs"
    "m_misses (cs_metrics s2) = m_misses (cs_metrics s1) + count_in is_miss rs"
    "m_evictions (cs_metrics s2) = m_evictions (cs_metrics s1)" by auto
  with s1(1,5) c show ?case by simp
qed simp

end

section \<open>The ring that \<open>main\<close> builds\<close>

lemma fold_Add:
  assumes "ring_wf r" "sortedTokens r \<noteq> []"
  shows "ring_wf (fold (\<lambda>p. ring_Add (peer_ID p) (peer_Addr p)) ps r) \<and>
    sortedTokens (fold (\<lambda>p. ring_Add (peer_ID p) (peer_Addr p)) ps r) \<noteq> []"
  using assms
proof (induction ps arbitrary: r)
  case (Cons p ps)
  have "set (sortedTokens r) \<subseteq> set (sortedTokens (ring_Add (peer_ID p) (peer_Addr p) r))"
    by (simp add: ring_Add_fields)
  then have "sortedTokens (ring_Add (peer_ID p) (peer_Addr p) r) \<noteq> []" using Cons.prems(2) by auto
  with Cons.IH ring_wf_Add [OF Cons.prems(1)] show ?case by simp
qed simp

lemma build_ring_wf: "ring_wf (build_ring nodeID port peers) \<and> sortedTokens (build_ring nodeID port peers) \<noteq> []"
proof -
  have "set (sortedTokens (ring_Add nodeID a NewRing)) = token_set defaultVirtualNodes nodeID" for a
    by (simp add: ring_Add_fields NewRing_def)
  then have "set (sortedTokens (ring_Add nodeID a NewRing)) \<noteq> {}" for a
    by (simp add: defaultVirtualNodes_def)
  then have "sortedTokens (ring_Add nodeID a NewRing) \<noteq> []" for a by (metis list.set(1))
  then show ?thesis unfolding build_ring_def by (intro fold_Add ring_wf_Add ring_wf_New)
qed

section \<open>Properties\<close>


definition two_node_ring :: Ring where
  "two_node_ring = ring_Add ''node2'' ''node2:9002'' small_ring"

definition two_node_cluster :: Coordinator where
  "two_node_cluster = SetLeader True (NewCoordinator two_node_ring (build_healthMap two_node_ring))"


text \<open>C28. In the cluster that \<open>main\<close> sets up, whatever the node ids and however their tokens collide, every
  key is routed once the node is leader: to a registered node, at its registered address, and
  that node passes the ownership check while every other node fails it.\<close>

theorem built_cluster_routes_every_key:
  "\<exists>n a. Route key (SetLeader True (build_coordinator nodeID port peers)) =
      (\<lparr>rr_NodeID = n, rr_Addr = a\<rparr>, True, None) \<and>
    ring_NodeAddr n (build_ring nodeID port peers) = Some a \<and>
    (\<forall>m. ValidateOwnership key m (build_coordinator nodeID port peers) =
      (if m = n then None else Some ErrRoutingMismatch))"
proof -
  let ?r = "build_ring nodeID port peers"
  obtain n a where "ring_Get key ?r = Some (n, a)" "ring_NodeAddr n ?r = Some a"
    using ring_Get_node build_ring_wf by blast
  then show ?thesis
    by (auto simp: Route_def SetLeader_def build_coordinator_def Let_def NewCoordinator_def
        lookup_build_healthMap ring_NodeAddr_def NewNodeHealth_def IsAvailable_def ValidateOwnership_def)
qed

text \<open>A TTL in seconds is converted exactly as long as the product with a second in nanoseconds fits in 64
  bits, which all TTLs the cache accepts do; so within that range \<open>Set\<close> accepts exactly the TTLs
  from 0 to 86400 seconds.\<close>

theorem server_set_ttl_bounds:
  assumes "- 9223372036 \<le> secs" "secs \<le> 9223372036"
  shows "secondsToDuration secs = secs * Second \<and>
    (set_validate (secondsToDuration secs) = None \<longleftrightarrow> 0 \<le> secs \<and> secs \<le> 86400)"
proof -
  have "secondsToDuration secs = secs * Second"
    unfolding secondsToDuration_def using assms by (intro int64_small) simp_all
  then show ?thesis by (auto simp: set_validate_None)
qed

theorem server_set_ttl_bounds_witness:
  "secondsToDuration 86401 = 86401 * Second \<and>
    (set_validate (secondsToDuration 86401) = None \<longleftrightarrow> 0 \<le> (86401::int) \<and> (86401::int) \<le> 86400)"
  by (rule server_set_ttl_bounds) simp_all

text \<open>Beyond that range the conversion wraps around: a TTL of 18446744074 seconds, 584 years, passes the
  check as less than a third of a second.\<close>

theorem server_set_ttl_overflow:
  "secondsToDuration 18446744074 = 290448384 \<and> set_validate (secondsToDuration 18446744074) = None"
  by (simp add: secondsToDuration_def int64_def set_validate_def)

text \<open>C32. The statistics of a server count its requests: after fewer than \<open>2^63\<close> requests, served without a
  panic, hits and misses are the numbers of lookups that found and did not find their key; the
  eviction counter is still 0 whatever was evicted.\<close>

theorem server_stats_count_requests:
  assumes "list_all srv_clock_ok ops" "int (length ops) < 2 ^ 63"
  shows "\<exists>rs s. serve_all policies ops (NewCacheServer nodeID (cache_New cap (buildEvictionPolicy draws name))) = Some (rs, s) \<and>
    fst (server_Stats policies s) = count_in is_hit rs \<and>
    fst (snd (server_Stats policies s)) = count_in is_miss rs \<and>
    fst (snd (snd (server_Stats policies s))) = 0"
  using any.serve_all_correct [of "NewCacheServer nodeID (cache_New cap (buildEvictionPolicy draws name))" ops]
    cache_inv_built [of cap draws name] assms
  by (auto simp: NewCacheServer_def server_Stats_def)

theorem server_stats_count_requests_witness:
  "\<exists>rs s. serve_all policies [SrvSet (\<lambda>_. 1) ''a'' ''x'' 60, SrvSet (\<lambda>_. 2) ''b'' ''y'' 60, SrvGet (\<lambda>_. 3) ''b'']
      (NewCacheServer ''node1'' (cache_New 1 (buildEvictionPolicy (\<lambda>_. 0) ''lru''))) = Some (rs, s) \<and>
    fst (server_Stats policies s) = count_in is_hit rs \<and>
    fst (snd (server_Stats policies s)) = count_in is_miss rs \<and>
    fst (snd (snd (server_Stats policies s))) = 0"
  by (rule server_stats_count_requests) (simp_all add: srv_clock_ok_def mono_def)

end
