(* ===== verification/Raft.thy ===== *)
theory Raft
  imports Cluster
begin

text \<open>
  One node of \<open>src/internal/raft\<close>: its state and persistence (\<open>state.go\<close>), its RPC handlers (\<open>rpc.go\<close>)
  and the pieces of its event loop (\<open>timer.go\<close>). Every definition is a section under the node's
  mutex; how the sections of several nodes interleave over the network is the subject of
  \<open>RaftCluster\<close>.

  The state file is represented by the state it holds: \<open>saveState\<close> writes a temporary file and
  renames it, so a write that fails leaves the old file. \<open>ok i\<close> says whether the \<open>i\<close>-th write
  of a section succeeds; the code ignores the answer.
\<close>

section \<open>The code: state and persistence\<close>

datatype NodeState = Follower | Candidate | Leader

definition NodeState_String :: "NodeState \<Rightarrow> string" where
  "NodeState_String s = (case s of Follower \<Rightarrow> ''follower'' | Candidate \<Rightarrow> ''candidate'' | Leader \<Rightarrow> ''leader'')"

record persistentState =
  CurrentTerm :: int
  VotedFor :: string

datatype stateFile = NoFile | Unreadable | Garbled | Holds persistentState

record RaftNode =
  rn_id :: string
  rn_peers :: "PeerConfig list"
  rn_state :: NodeState
  rn_leaderID :: string
  rn_ps :: persistentState
  rn_disk :: stateFile
  rn_stopped :: bool
  rn_leaderCh :: "string option"
  rn_lastHeartbeat :: time

abbreviation rn_term :: "RaftNode \<Rightarrow> int" where
  "rn_term n \<equiv> CurrentTerm (rn_ps n)"

abbreviation rn_vote :: "RaftNode \<Rightarrow> string" where
  "rn_vote n \<equiv> VotedFor (rn_ps n)"

definition zero_ps :: persistentState where
  "zero_ps = \<lparr>CurrentTerm = 0, VotedFor = ''''\<rparr>"

datatype load_error = ReadError | UnmarshalError

definition loadState :: "stateFile \<Rightarrow> load_error + persistentState" where
  "loadState f = (case f of NoFile \<Rightarrow> Inr zero_ps | Unreadable \<Rightarrow> Inl ReadError
     | Garbled \<Rightarrow> Inl UnmarshalError | Holds ps \<Rightarrow> Inr ps)"

definition NewRaftNode :: "string \<Rightarrow> PeerConfig list \<Rightarrow> stateFile \<Rightarrow> load_error + RaftNode" where
  "NewRaftNode nid peers f = (case loadState f of
     Inl err \<Rightarrow> Inl err
   | Inr ps \<Rightarrow> Inr \<lparr>rn_id = nid, rn_peers = peers, rn_state = Follower, rn_leaderID = '''', rn_ps = ps, rn_disk = f,
       rn_stopped = False, rn_leaderCh = None, rn_lastHeartbeat = 0\<rparr>)"

definition saveState :: "bool \<Rightarrow> RaftNode \<Rightarrow> RaftNode" where
  "saveState ok n = (if ok then n\<lparr>rn_disk := Holds (rn_ps n)\<rparr> else n)"

definition becomeFollower :: "bool \<Rightarrow> int \<Rightarrow> RaftNode \<Rightarrow> RaftNode" where
  "becomeFollower ok term n =
     (let n = n\<lparr>rn_state := Follower\<rparr>
      in if term > rn_term n then saveState ok (n\<lparr>rn_ps := \<lparr>CurrentTerm = term, VotedFor = ''''\<rparr>\<rparr>) else n)"

definition becomeCandidate :: "bool \<Rightarrow> RaftNode \<Rightarrow> RaftNode" where
  "becomeCandidate ok n =
     saveState ok (n\<lparr>rn_state := Candidate,
                     rn_ps := \<lparr>CurrentTerm = int64 (rn_term n + 1), VotedFor = rn_id n\<rparr>\<rparr>)"

text \<open>The channel has room for one message; when it is full the notification is dropped.\<close>

definition becomeLeader :: "RaftNode \<Rightarrow> RaftNode" where
  "becomeLeader n = n\<lparr>rn_state := Leader, rn_leaderID := rn_id n,
     rn_leaderCh := (case rn_leaderCh n of None \<Rightarrow> Some (rn_id n) | Some m \<Rightarrow> Some m)\<rparr>"

text \<open>Closing a closed channel panics.\<close>

definition raft_Stop :: "RaftNode \<Rightarrow> RaftNode option" where
  "raft_Stop n = (if rn_stopped n then None else Some (n\<lparr>rn_stopped := True\<rparr>))"

text \<open>The goroutine of \<open>src/cmd/cachenode/main.go\<close> that receives from the channel and tells the coordinator.\<close>

definition receive_leader :: "string \<Rightarrow> RaftNode \<Rightarrow> Coordinator \<Rightarrow> RaftNode \<times> Coordinator" where
  "receive_leader nodeID n c = (case rn_leaderCh n of
     None \<Rightarrow> (n, c)
   | Some leaderID \<Rightarrow> (n\<lparr>rn_leaderCh := None\<rparr>, SetLeader (leaderID = nodeID) c))"

section \<open>The code: RPC handlers\<close>

record RequestVoteRequest =
  rv_Term :: int
  rv_CandidateID :: string

record RequestVoteResponse =
  rvr_Term :: int
  rvr_VoteGranted :: bool

record AppendEntriesRequest =
  ae_Term :: int
  ae_LeaderID :: string

record AppendEntriesResponse =
  aer_Term :: int
  aer_Success :: bool

definition HandleRequestVote :: "(nat \<Rightarrow> bool) \<Rightarrow> RequestVoteRequest \<Rightarrow> RaftNode \<Rightarrow> RequestVoteResponse \<times> RaftNode" where
  "HandleRequestVote ok req n =
     (if rv_Term req < rn_term n then (\<lparr>rvr_Term = rn_term n, rvr_VoteGranted = False\<rparr>, n)
      else
        let n1 = (if rv_Term req > rn_term n then becomeFollower (ok 0) (rv_Term req) n else n)
        in if rn_vote n1 \<noteq> '''' \<and> rn_vote n1 \<noteq> rv_CandidateID req
           then (\<lparr>rvr_Term = rn_term n1, rvr_VoteGranted = False\<rparr>, n1)
           else (\<lparr>rvr_Term = rn_term n1, rvr_VoteGranted = True\<rparr>,
                 saveState (ok 1) (n1\<lparr>rn_ps := (rn_ps n1)\<lparr>VotedFor := rv_CandidateID req\<rparr>\<rparr>)))"

definition HandleAppendEntries :: "bool \<Rightarrow> time \<Rightarrow> AppendEntriesRequest \<Rightarrow> RaftNode \<Rightarrow> AppendEntriesResponse \<times> RaftNode" where
  "HandleAppendEntries ok now req n =
     (if ae_Term req < rn_term n then (\<lparr>aer_Term = rn_term n, aer_Success = False\<rparr>, n)
      else
        let n1 = (if ae_Term req > rn_term n then becomeFollower ok (ae_Term req) n else n);
            n2 = (if rn_state n1 = Candidate then n1\<lparr>rn_state := Follower\<rparr> else n1)
        in (\<lparr>aer_Term = rn_term n2, aer_Success = True\<rparr>,
            n2\<lparr>rn_leaderID := ae_LeaderID req, rn_lastHeartbeat := now\<rparr>))"

section \<open>The code: pieces of the event loop\<close>

definition electionTimeoutMin :: duration where
  "electionTimeoutMin = 150 * Millisecond"

definition electionTimeoutMax :: duration where
  "electionTimeoutMax = 300 * Millisecond"

definition heartbeatInterval :: duration where
  "heartbeatInterval = 50 * Millisecond"

text \<open>\<open>rand.Int63n\<close> reduces the next draw of the generator.\<close>

definition randomElectionTimeout :: "int \<Rightarrow> duration" where
  "randomElectionTimeout draw = electionTimeoutMin + draw mod (electionTimeoutMax - electionTimeoutMin)"

text \<open>The decision when the election timer fires: whether to start an election.\<close>

definition election_due :: "time \<Rightarrow> RaftNode \<Rightarrow> bool" where
  "election_due now n \<longleftrightarrow> rn_state n \<noteq> Leader \<and> \<not> now - rn_lastHeartbeat n < electionTimeoutMin"

definition majority :: "PeerConfig list \<Rightarrow> nat" where
  "majority peers = (length peers + 1) div 2 + 1"

text \<open>What a goroutine of \<open>startElection\<close> sends back: an error counts as not granted in term 0.\<close>

record voteResult =
  vr_granted :: bool
  vr_term :: int

definition vote_result :: "RequestVoteResponse option \<Rightarrow> voteResult" where
  "vote_result r = (case r of
     None \<Rightarrow> \<lparr>vr_granted = False, vr_term = 0\<rparr>
   | Some resp \<Rightarrow> \<lparr>vr_granted = rvr_VoteGranted resp, vr_term = rvr_Term resp\<rparr>)"

text \<open>One round of the collecting loop: go on with a count of votes, stop, or stop as the winner.\<close>

datatype collecting = Continue nat | Stepped_down | Won

definition collect_vote :: "bool \<Rightarrow> voteResult \<Rightarrow> nat \<Rightarrow> RaftNode \<Rightarrow> collecting \<times> RaftNode" where
  "collect_vote ok result votes n =
     (if vr_term result > rn_term n then (Stepped_down, becomeFollower ok (vr_term result) n)
      else if vr_granted result then
        let votes = Suc votes
        in if votes \<ge> majority (rn_peers n) \<and> rn_state n = Candidate then (Won, becomeLeader n)
           else (Continue votes, n)
      else (Continue votes, n))"

text \<open>The whole election without interference: the results arrive in the order of the list.\<close>

primrec collect_votes :: "bool \<Rightarrow> voteResult list \<Rightarrow> nat \<Rightarrow> RaftNode \<Rightarrow> RaftNode" where
  "collect_votes ok [] votes n = n"
| "collect_votes ok (r # rs) votes n = (case collect_vote ok r votes n of
     (Continue votes', n') \<Rightarrow> collect_votes ok rs votes' n'
   | (_, n') \<Rightarrow> n')"

definition startElection :: "(nat \<Rightarrow> bool) \<Rightarrow> voteResult list \<Rightarrow> RaftNode \<Rightarrow> RaftNode" where
  "startElection ok results n = collect_votes (ok 1) results 1 (becomeCandidate (ok 0) n)"

text \<open>\<open>sendHeartbeats\<close> takes the term when it has the lock, and steps down on a higher term in a reply.\<close>

definition heartbeat_request :: "RaftNode \<Rightarrow> AppendEntriesRequest" where
  "heartbeat_request n = \<lparr>ae_Term = rn_term n, ae_LeaderID = rn_id n\<rparr>"

definition heartbeat_reply :: "bool \<Rightarrow> AppendEntriesResponse \<Rightarrow> RaftNode \<Rightarrow> RaftNode" where
  "heartbeat_reply ok resp n = (if aer_Term resp > rn_term n then becomeFollower ok (aer_Term resp) n else n)"

section \<open>What each section does\<close>

lemma saveState_simps [simp]:
  "rn_id (saveState ok n) = rn_id n" "rn_peers (saveState ok n) = rn_peers n" "rn_state (saveState ok n) = rn_state n"
  "rn_ps (saveState ok n) = rn_ps n" "rn_leaderID (saveState ok n) = rn_leaderID n"
  "rn_disk (saveState True n) = Holds (rn_ps n)" "rn_leaderCh (saveState ok n) = rn_leaderCh n"
  by (simp_all add: saveState_def)

lemma becomeFollower_simps [simp]:
  "rn_id (becomeFollower ok t n) = rn_id n" "rn_peers (becomeFollower ok t n) = rn_peers n"
  "rn_state (becomeFollower ok t n) = Follower" "rn_leaderCh (becomeFollower ok t n) = rn_leaderCh n"
  "rn_term (becomeFollower ok t n) = max t (rn_term n)"
  "rn_vote (becomeFollower ok t n) = (if t > rn_term n then '''' else rn_vote n)"
  by (simp_all add: becomeFollower_def Let_def)

lemma becomeCandidate_simps [simp]:
  "rn_id (becomeCandidate ok n) = rn_id n" "rn_peers (becomeCandidate ok n) = rn_peers n"
  "rn_state (becomeCandidate ok n) = Candidate" "rn_term (becomeCandidate ok n) = int64 (rn_term n + 1)"
  "rn_vote (becomeCandidate ok n) = rn_id n"
  by (simp_all add: becomeCandidate_def)

lemma becomeLeader_simps [simp]:
  "rn_id (becomeLeader n) = rn_id n" "rn_peers (becomeLeader n) = rn_peers n" "rn_state (becomeLeader n) = Leader"
  "rn_ps (becomeLeader n) = rn_ps n" "rn_disk (becomeLeader n) = rn_disk n" "rn_leaderID (becomeLeader n) = rn_id n"
  by (simp_all add: becomeLeader_def)

text \<open>On disk is what the node holds in memory, once it has ever changed it.\<close>

definition persisted :: "RaftNode \<Rightarrow> bool" where
  "persisted n \<longleftrightarrow> loadState (rn_disk n) = Inr (rn_ps n)"

lemma persisted_saveState [simp]: "persisted (saveState True n)"
  by (simp add: persisted_def loadState_def)

lemma persisted_becomeFollower: "persisted n \<Longrightarrow> persisted (becomeFollower True t n)"
  by (simp add: becomeFollower_def Let_def) (simp add: persisted_def)

lemma persisted_becomeCandidate [simp]: "persisted (becomeCandidate True n)"
  by (simp add: becomeCandidate_def)

lemma persisted_becomeLeader [simp]: "persisted (becomeLeader n) = persisted n"
  by (simp add: persisted_def)

text \<open>
  The vote handler: the term only grows; the vote of a term, once given, stays; a granted vote
  is for the request's term and is recorded.
\<close>

lemma HandleRequestVote_correct:
  assumes "HandleRequestVote ok req n = (resp, n')"
  shows "rn_id n' = rn_id n" "rn_peers n' = rn_peers n" "rn_term n \<le> rn_term n'"
    "rn_term n' = max (rv_Term req) (rn_term n)" "rvr_Term resp = rn_term n'"
    "rn_state n' = (if rv_Term req > rn_term n then Follower else rn_state n)"
    "rn_term n' = rn_term n \<Longrightarrow> rn_vote n \<noteq> '''' \<Longrightarrow> rn_vote n' = rn_vote n"
    "rvr_VoteGranted resp \<Longrightarrow> rn_term n' = rv_Term req \<and> rn_vote n' = rv_CandidateID req"
    "\<not> rvr_VoteGranted resp \<Longrightarrow> rn_vote n' = (if rv_Term req > rn_term n then '''' else rn_vote n)"
  using assms by (auto simp: HandleRequestVote_def Let_def split: if_splits)

lemma persisted_HandleRequestVote:
  assumes "persisted n"
  shows "persisted (snd (HandleRequestVote (\<lambda>_. True) req n))"
  using assms persisted_becomeFollower [OF assms] by (simp add: HandleRequestVote_def Let_def)

lemma HandleAppendEntries_correct:
  assumes "HandleAppendEntries ok now req n = (resp, n')"
  shows "rn_id n' = rn_id n" "rn_peers n' = rn_peers n" "rn_term n' = max (ae_Term req) (rn_term n)"
    "aer_Term resp = rn_term n'" "aer_Success resp \<longleftrightarrow> rn_term n \<le> ae_Term req"
    "rn_vote n' = (if ae_Term req > rn_term n then '''' else rn_vote n)"
    "rn_state n' = (if ae_Term req > rn_term n \<or> rn_state n = Candidate \<and> ae_Term req = rn_term n then Follower else rn_state n)"
    "aer_Success resp \<Longrightarrow> rn_leaderID n' = ae_LeaderID req \<and> rn_lastHeartbeat n' = now"
    "\<not> aer_Success resp \<Longrightarrow> n' = n"
  using assms by (auto simp: HandleAppendEntries_def Let_def max_def split: if_splits)

lemma persisted_HandleAppendEntries:
  assumes "persisted n"
  shows "persisted (snd (HandleAppendEntries True now req n))"
  using assms persisted_becomeFollower [OF assms, of "ae_Term req"]
  by (auto simp: HandleAppendEntries_def Let_def persisted_def)

lemma collect_vote_correct:
  assumes "collect_vote ok r v n = (out, n')"
  shows "rn_id n' = rn_id n" "rn_peers n' = rn_peers n" "rn_term n' = max (vr_term r) (rn_term n) \<or> rn_term n' = rn_term n"
    "out = Won \<Longrightarrow> n' = becomeLeader n \<and> rn_state n = Candidate \<and> vr_granted r \<and> majority (rn_peers n) \<le> Suc v"
    "out = Continue v' \<Longrightarrow> n' = n \<and> v' = (if vr_granted r then Suc v else v)"
    "out = Stepped_down \<Longrightarrow> n' = becomeFollower ok (vr_term r) n \<and> vr_term r > rn_term n"
  using assms by (auto simp: collect_vote_def Let_def split: if_splits)

lemma persisted_collect_vote:
  assumes "persisted n"
  shows "persisted (snd (collect_vote True r v n))"
  using assms persisted_becomeFollower [OF assms] by (simp add: collect_vote_def Let_def)

lemma persisted_heartbeat_reply: "persisted n \<Longrightarrow> persisted (heartbeat_reply True resp n)"
  by (simp add: heartbeat_reply_def persisted_becomeFollower)

lemma heartbeat_reply_simps [simp]:
  "rn_id (heartbeat_reply ok resp n) = rn_id n" "rn_peers (heartbeat_reply ok resp n) = rn_peers n"
  "rn_term (heartbeat_reply ok resp n) = max (aer_Term resp) (rn_term n)"
  by (simp_all add: heartbeat_reply_def)

end
