(* ===== verification/RaftCluster.thy ===== *)
theory RaftCluster
  imports Raft
begin

text \<open>
  A cluster of the Raft nodes of \<open>src/internal/raft\<close> on an unreliable network. The sections of the
  nodes' event loops and handlers interleave freely; messages may be lost, delayed, reordered
  and, for requests, delivered more than once; nodes crash and restart from their state file.
  Shown: no two nodes are ever leader of the same term. Two ghost components record the votes
  cast and the elections won.
\<close>

section \<open>The event loop between its sections\<close>

text \<open>
  Where \<open>runLoop\<close> of a node stands: waiting in its \<open>select\<close>; past the test of the election timer
  (line 79 of \<open>timer.go\<close> is its call of \<open>startElection\<close>); collecting votes for a
  term, with the count so far and the peers whose result is still to come; or past the test of
  being leader, before \<open>sendHeartbeats\<close> takes the lock.
\<close>

datatype loop = Waiting | Firing | Collecting int nat "string list" | Asserting

record cluster =
  cl_node :: "string \<Rightarrow> RaftNode"
  cl_loop :: "string \<Rightarrow> loop"
  cl_vreqs :: "(string \<times> RequestVoteRequest) set"
  cl_vresps :: "(string \<times> int \<times> string \<times> RequestVoteResponse) set"
  cl_hbs :: "(string \<times> AppendEntriesRequest) set"
  cl_hbresps :: "(string \<times> AppendEntriesResponse) set"
  cl_votes :: "(string \<times> int \<times> string) set"
  cl_won :: "(int \<times> string) set"

datatype raft_event =
    Timer string time                                  \<comment> \<open>the election timer fires\<close>
  | Start string                                       \<comment> \<open>\<open>startElection\<close>, first section\<close>
  | Vote string RequestVoteRequest                     \<comment> \<open>a vote request arrives\<close>
  | Collect string string "RequestVoteResponse option" \<comment> \<open>a vote result is taken from the channel\<close>
  | GiveUp string                                      \<comment> \<open>all results are in\<close>
  | Tick string                                        \<comment> \<open>the heartbeat ticker fires at a leader\<close>
  | Assert string                                      \<comment> \<open>\<open>sendHeartbeats\<close>\<close>
  | Heartbeat string AppendEntriesRequest time         \<comment> \<open>a heartbeat arrives\<close>
  | Reply string AppendEntriesResponse                 \<comment> \<open>a reply to a heartbeat arrives\<close>
  | Crash string                                       \<comment> \<open>a node stops and starts again\<close>

definition peer_nodes :: "(string \<Rightarrow> string) \<Rightarrow> RaftNode \<Rightarrow> string list" where
  "peer_nodes node_at n = map (node_at \<circ> peer_Addr) (rn_peers n)"

abbreviation set_node :: "string \<Rightarrow> RaftNode \<Rightarrow> cluster \<Rightarrow> cluster" where
  "set_node m n s \<equiv> s\<lparr>cl_node := (cl_node s)(m := n)\<rparr>"

abbreviation set_loop :: "string \<Rightarrow> loop \<Rightarrow> cluster \<Rightarrow> cluster" where
  "set_loop m l s \<equiv> s\<lparr>cl_loop := (cl_loop s)(m := l)\<rparr>"

definition ev_start :: "(string \<Rightarrow> string) \<Rightarrow> string \<Rightarrow> cluster \<Rightarrow> cluster" where
  "ev_start node_at m s =
     (let n = becomeCandidate True (cl_node s m); qs = peer_nodes node_at n
      in (set_loop m (Collecting (rn_term n) 1 qs) (set_node m n s))
           \<lparr>cl_vreqs := cl_vreqs s \<union> (\<lambda>q. (q, \<lparr>rv_Term = rn_term n, rv_CandidateID = rn_id n\<rparr>)) ` set qs,
            cl_votes := insert (m, rn_term n, m) (cl_votes s)\<rparr>)"

definition ev_vote :: "string \<Rightarrow> RequestVoteRequest \<Rightarrow> cluster \<Rightarrow> cluster" where
  "ev_vote q req s = (case HandleRequestVote (\<lambda>_. True) req (cl_node s q) of (resp, n) \<Rightarrow>
     (set_node q n s)
       \<lparr>cl_vresps := insert (rv_CandidateID req, rv_Term req, q, resp) (cl_vresps s),
        cl_votes := (if rvr_VoteGranted resp then {(q, rv_Term req, rv_CandidateID req)} else {}) \<union> cl_votes s\<rparr>)"

definition ev_collect :: "string \<Rightarrow> int \<Rightarrow> nat \<Rightarrow> string list \<Rightarrow> string \<Rightarrow> RequestVoteResponse option \<Rightarrow> cluster \<Rightarrow> cluster" where
  "ev_collect m t v pend q r s = (case collect_vote True (vote_result r) v (cl_node s m) of (out, n) \<Rightarrow>
     (set_loop m (case out of Continue v' \<Rightarrow> Collecting t v' (remove1 q pend) | Stepped_down \<Rightarrow> Waiting | Won \<Rightarrow> Asserting)
        (set_node m n s))
       \<lparr>cl_won := (if out = Won then {(rn_term n, m)} else {}) \<union> cl_won s\<rparr>)"

definition ev_assert :: "(string \<Rightarrow> string) \<Rightarrow> string \<Rightarrow> cluster \<Rightarrow> cluster" where
  "ev_assert node_at m s =
     (set_loop m Waiting s)
       \<lparr>cl_hbs := cl_hbs s \<union> (\<lambda>q. (q, heartbeat_request (cl_node s m))) ` set (peer_nodes node_at (cl_node s m))\<rparr>"

definition ev_heartbeat :: "string \<Rightarrow> AppendEntriesRequest \<Rightarrow> time \<Rightarrow> cluster \<Rightarrow> cluster" where
  "ev_heartbeat q req now s = (case HandleAppendEntries True now req (cl_node s q) of (resp, n) \<Rightarrow>
     (set_node q n s)\<lparr>cl_hbresps := insert (ae_LeaderID req, resp) (cl_hbresps s)\<rparr>)"

text \<open>An event happens only when it is enabled.\<close>

definition raft_exec :: "string list \<Rightarrow> (string \<Rightarrow> string) \<Rightarrow> raft_event \<Rightarrow> cluster \<Rightarrow> cluster option" where
  "raft_exec ms node_at ev s = (case ev of
     Timer m now \<Rightarrow>
       if m \<in> set ms \<and> cl_loop s m = Waiting \<and> election_due now (cl_node s m) then Some (set_loop m Firing s) else None
   | Start m \<Rightarrow> if m \<in> set ms \<and> cl_loop s m = Firing then Some (ev_start node_at m s) else None
   | Vote q req \<Rightarrow> if (q, req) \<in> cl_vreqs s then Some (ev_vote q req s) else None
   | Collect m q r \<Rightarrow> (case cl_loop s m of
         Collecting t v pend \<Rightarrow>
           if m \<in> set ms \<and> q \<in> set pend \<and> (case r of None \<Rightarrow> True | Some resp \<Rightarrow> (m, t, q, resp) \<in> cl_vresps s)
           then Some (ev_collect m t v pend q r s) else None
       | _ \<Rightarrow> None)
   | GiveUp m \<Rightarrow> (case cl_loop s m of
         Collecting t v pend \<Rightarrow> if m \<in> set ms \<and> pend = [] then Some (set_loop m Waiting s) else None
       | _ \<Rightarrow> None)
   | Tick m \<Rightarrow>
       if m \<in> set ms \<and> cl_loop s m = Waiting \<and> rn_state (cl_node s m) = Leader then Some (set_loop m Asserting s) else None
   | Assert m \<Rightarrow> if m \<in> set ms \<and> cl_loop s m = Asserting then Some (ev_assert node_at m s) else None
   | Heartbeat q req now \<Rightarrow> if (q, req) \<in> cl_hbs s then Some (ev_heartbeat q req now s) else None
   | Reply m resp \<Rightarrow>
       if (m, resp) \<in> cl_hbresps s then Some (set_node m (heartbeat_reply True resp (cl_node s m)) s) else None
   | Crash m \<Rightarrow>
       if m \<in> set ms then (case NewRaftNode m (rn_peers (cl_node s m)) (rn_disk (cl_node s m)) of
           Inl _ \<Rightarrow> None
         | Inr n \<Rightarrow> Some (set_loop m Waiting (set_node m n s)))
       else None)"

text \<open>Fresh nodes, no state files, nothing in flight.\<close>

definition fresh_node :: "string \<Rightarrow> PeerConfig list \<Rightarrow> RaftNode" where
  "fresh_node m ps = (case NewRaftNode m ps NoFile of Inr n \<Rightarrow> n)"

definition raft_init :: "(string \<Rightarrow> PeerConfig list) \<Rightarrow> cluster" where
  "raft_init peers = \<lparr>cl_node = (\<lambda>m. fresh_node m (peers m)), cl_loop = (\<lambda>_. Waiting), cl_vreqs = {}, cl_vresps = {},
     cl_hbs = {}, cl_hbresps = {}, cl_votes = {}, cl_won = {}\<rparr>"

inductive raft_reach :: "string list \<Rightarrow> (string \<Rightarrow> string) \<Rightarrow> (string \<Rightarrow> PeerConfig list) \<Rightarrow> nat \<Rightarrow> cluster \<Rightarrow> bool"
  for ms node_at peers where
  init: "raft_reach ms node_at peers 0 (raft_init peers)"
| event: "raft_reach ms node_at peers k s \<Longrightarrow> raft_exec ms node_at ev s = Some s' \<Longrightarrow>
    raft_reach ms node_at peers (Suc k) s'"

text \<open>
  The configuration: the members have distinct, non-empty ids, and the addresses in each one's peer
  list are those of all the others.
\<close>

definition config_ok :: "string list \<Rightarrow> (string \<Rightarrow> string) \<Rightarrow> (string \<Rightarrow> PeerConfig list) \<Rightarrow> bool" where
  "config_ok ms node_at peers \<longleftrightarrow> distinct ms \<and> '''' \<notin> set ms \<and>
     list_all (\<lambda>m. distinct (map (node_at \<circ> peer_Addr) (peers m)) \<and>
       set (map (node_at \<circ> peer_Addr) (peers m)) = set ms - {m}) ms"

section \<open>The invariant\<close>

definition voters :: "string list \<Rightarrow> cluster \<Rightarrow> int \<Rightarrow> string \<Rightarrow> string set" where
  "voters ms s t c = {q \<in> set ms. (q, t, c) \<in> cl_votes s}"

definition nodes_ok :: "string list \<Rightarrow> (string \<Rightarrow> PeerConfig list) \<Rightarrow> nat \<Rightarrow> cluster \<Rightarrow> bool" where
  "nodes_ok ms peers k s \<longleftrightarrow> (\<forall>m\<in>set ms. rn_id (cl_node s m) = m \<and> rn_peers (cl_node s m) = peers m \<and>
     persisted (cl_node s m) \<and> 0 \<le> rn_term (cl_node s m) \<and> rn_term (cl_node s m) \<le> int k)"

definition msgs_ok :: "string list \<Rightarrow> nat \<Rightarrow> cluster \<Rightarrow> bool" where
  "msgs_ok ms k s \<longleftrightarrow>
     (\<forall>(q, req) \<in> cl_vreqs s. q \<in> set ms \<and> rv_CandidateID req \<in> set ms \<and> rv_Term req \<le> int k) \<and>
     (\<forall>(c, t, q, resp) \<in> cl_vresps s. rvr_Term resp \<le> int k \<and> (rvr_VoteGranted resp \<longrightarrow> (q, t, c) \<in> cl_votes s)) \<and>
     (\<forall>(q, req) \<in> cl_hbs s. q \<in> set ms \<and> ae_LeaderID req \<in> set ms \<and> ae_Term req \<le> int k) \<and>
     (\<forall>(m, resp) \<in> cl_hbresps s. m \<in> set ms \<and> aer_Term resp \<le> int k)"

definition votes_ok :: "cluster \<Rightarrow> bool" where
  "votes_ok s \<longleftrightarrow>
     (\<forall>(q, t, c) \<in> cl_votes s. c \<noteq> '''' \<and>
        (t < rn_term (cl_node s q) \<or> t = rn_term (cl_node s q) \<and> rn_vote (cl_node s q) = c)) \<and>
     (\<forall>q t c c'. (q, t, c) \<in> cl_votes s \<longrightarrow> (q, t, c') \<in> cl_votes s \<longrightarrow> c = c')"

definition loop_ok :: "string list \<Rightarrow> cluster \<Rightarrow> string \<Rightarrow> loop \<Rightarrow> bool" where
  "loop_ok ms s m l = (case l of
     Firing \<Rightarrow> rn_state (cl_node s m) \<noteq> Leader
   | Collecting t v pend \<Rightarrow>
       rn_state (cl_node s m) \<noteq> Leader \<and> (rn_state (cl_node s m) = Candidate \<longrightarrow> rn_term (cl_node s m) = t) \<and>
       (m, t, m) \<in> cl_votes s \<and> distinct pend \<and> set pend \<subseteq> set ms - {m} \<and>
       v \<le> card (voters ms s t m - set pend)
   | _ \<Rightarrow> True)"

definition won_ok :: "string list \<Rightarrow> cluster \<Rightarrow> bool" where
  "won_ok ms s \<longleftrightarrow> (\<forall>(t, c) \<in> cl_won s. length ms < 2 * card (voters ms s t c)) \<and>
     (\<forall>m\<in>set ms. rn_state (cl_node s m) = Leader \<longrightarrow> (rn_term (cl_node s m), m) \<in> cl_won s)"

definition raft_inv :: "string list \<Rightarrow> (string \<Rightarrow> PeerConfig list) \<Rightarrow> nat \<Rightarrow> cluster \<Rightarrow> bool" where
  "raft_inv ms peers k s \<longleftrightarrow> nodes_ok ms peers k s \<and> msgs_ok ms k s \<and> votes_ok s \<and>
     (\<forall>m\<in>set ms. loop_ok ms s m (cl_loop s m)) \<and> won_ok ms s"

text \<open>Introduction and elimination rules for the parts of the invariant.\<close>

lemma nodes_okD:
  assumes "nodes_ok ms peers k s" "m \<in> set ms"
  shows "rn_id (cl_node s m) = m" "rn_peers (cl_node s m) = peers m" "persisted (cl_node s m)"
    "0 \<le> rn_term (cl_node s m)" "rn_term (cl_node s m) \<le> int k"
  using assms by (simp_all add: nodes_ok_def)

lemma nodes_okI:
  assumes "\<And>m. m \<in> set ms \<Longrightarrow> rn_id (cl_node s m) = m \<and> rn_peers (cl_node s m) = peers m \<and>
     persisted (cl_node s m) \<and> 0 \<le> rn_term (cl_node s m) \<and> rn_term (cl_node s m) \<le> int k"
  shows "nodes_ok ms peers k s"
  using assms by (simp add: nodes_ok_def)

lemma votes_okD:
  assumes "votes_ok s"
  shows "(q, t, c) \<in> cl_votes s \<Longrightarrow> c \<noteq> ''''"
    "(q, t, c) \<in> cl_votes s \<Longrightarrow> t < rn_term (cl_node s q) \<or> t = rn_term (cl_node s q) \<and> rn_vote (cl_node s q) = c"
    "(q, t, c) \<in> cl_votes s \<Longrightarrow> (q, t, c') \<in> cl_votes s \<Longrightarrow> c = c'"
  using assms by (auto simp: votes_ok_def)

lemma votes_okI:
  assumes "\<And>q t c. (q, t, c) \<in> cl_votes s \<Longrightarrow> c \<noteq> ''''"
    "\<And>q t c. (q, t, c) \<in> cl_votes s \<Longrightarrow> t < rn_term (cl_node s q) \<or> t = rn_term (cl_node s q) \<and> rn_vote (cl_node s q) = c"
    "\<And>q t c c'. (q, t, c) \<in> cl_votes s \<Longrightarrow> (q, t, c') \<in> cl_votes s \<Longrightarrow> c = c'"
  shows "votes_ok s"
proof -
  have "\<forall>x\<in>cl_votes s. case x of (q, t, c) \<Rightarrow> c \<noteq> '''' \<and>
      (t < rn_term (cl_node s q) \<or> t = rn_term (cl_node s q) \<and> rn_vote (cl_node s q) = c)"
    using assms(1,2) by blast
  moreover have "\<forall>q t c c'. (q, t, c) \<in> cl_votes s \<longrightarrow> (q, t, c') \<in> cl_votes s \<longrightarrow> c = c'"
    using assms(3) by blast
  ultimately show ?thesis unfolding votes_ok_def by (rule conjI)
qed

lemma msgs_okD:
  assumes "msgs_ok ms k s"
  shows "(q, req) \<in> cl_vreqs s \<Longrightarrow> q \<in> set ms \<and> rv_CandidateID req \<in> set ms \<and> rv_Term req \<le> int k"
    "(c, t, q, resp) \<in> cl_vresps s \<Longrightarrow> rvr_Term resp \<le> int k \<and> (rvr_VoteGranted resp \<longrightarrow> (q, t, c) \<in> cl_votes s)"
    "(q, hb) \<in> cl_hbs s \<Longrightarrow> q \<in> set ms \<and> ae_LeaderID hb \<in> set ms \<and> ae_Term hb \<le> int k"
    "(m, hbr) \<in> cl_hbresps s \<Longrightarrow> m \<in> set ms \<and> aer_Term hbr \<le> int k"
  using assms unfolding msgs_ok_def by blast+

lemma msgs_okI:
  assumes "\<And>q req. (q, req) \<in> cl_vreqs s \<Longrightarrow> q \<in> set ms \<and> rv_CandidateID req \<in> set ms \<and> rv_Term req \<le> int k"
    "\<And>c t q resp. (c, t, q, resp) \<in> cl_vresps s \<Longrightarrow> rvr_Term resp \<le> int k \<and> (rvr_VoteGranted resp \<longrightarrow> (q, t, c) \<in> cl_votes s)"
    "\<And>q hb. (q, hb) \<in> cl_hbs s \<Longrightarrow> q \<in> set ms \<and> ae_LeaderID hb \<in> set ms \<and> ae_Term hb \<le> int k"
    "\<And>m hbr. (m, hbr) \<in> cl_hbresps s \<Longrightarrow> m \<in> set ms \<and> aer_Term hbr \<le> int k"
  shows "msgs_ok ms k s"
  using assms unfolding msgs_ok_def by blast

lemma raft_invD:
  assumes "raft_inv ms peers k s"
  shows "nodes_ok ms peers k s" "msgs_ok ms k s" "votes_ok s" "won_ok ms s"
    "m \<in> set ms \<Longrightarrow> loop_ok ms s m (cl_loop s m)"
  using assms by (simp_all add: raft_inv_def)

lemma raft_invI:
  assumes "nodes_ok ms peers k s" "msgs_ok ms k s" "votes_ok s" "won_ok ms s"
    "\<And>m. m \<in> set ms \<Longrightarrow> loop_ok ms s m (cl_loop s m)"
  shows "raft_inv ms peers k s"
  using assms by (simp add: raft_inv_def)

lemma fresh_node_simps [simp]:
  "rn_id (fresh_node m ps) = m" "rn_peers (fresh_node m ps) = ps" "rn_state (fresh_node m ps) = Follower"
  "rn_ps (fresh_node m ps) = zero_ps" "rn_disk (fresh_node m ps) = NoFile"
  by (simp_all add: fresh_node_def NewRaftNode_def loadState_def)

lemma raft_inv_init: "raft_inv ms peers 0 (raft_init peers)"
  by (simp add: raft_inv_def nodes_ok_def msgs_ok_def votes_ok_def loop_ok_def won_ok_def raft_init_def
      persisted_def loadState_def zero_ps_def)

lemma nodes_ok_mono: "nodes_ok ms peers k s \<Longrightarrow> k \<le> k' \<Longrightarrow> nodes_ok ms peers k' s"
  by (intro nodes_okI) (use nodes_okD [of ms peers k s] in force)

lemma msgs_ok_mono:
  assumes "msgs_ok ms k s" "k \<le> k'"
  shows "msgs_ok ms k' s"
  using assms(2)
  by (intro msgs_okI) (auto dest: msgs_okD [OF assms(1)])

lemma raft_inv_mono: "raft_inv ms peers k s \<Longrightarrow> k \<le> k' \<Longrightarrow> raft_inv ms peers k' s"
  using nodes_ok_mono msgs_ok_mono by (auto simp: raft_inv_def)

text \<open>
  A section of a node that keeps its identity and its persistence, does not lower its term or
  change a vote within it, and leaves its role alone unless it makes it a follower.
\<close>

definition calm :: "RaftNode \<Rightarrow> RaftNode \<Rightarrow> bool" where
  "calm n n' \<longleftrightarrow> rn_id n' = rn_id n \<and> rn_peers n' = rn_peers n \<and> (persisted n \<longrightarrow> persisted n') \<and> rn_term n \<le> rn_term n' \<and>
     (rn_term n' = rn_term n \<longrightarrow> rn_vote n \<noteq> '''' \<longrightarrow> rn_vote n' = rn_vote n) \<and>
     (rn_state n' \<noteq> Follower \<longrightarrow> rn_state n' = rn_state n \<and> rn_term n' = rn_term n)"

lemma calm_becomeFollower: "calm n (becomeFollower True t n)"
  by (auto simp: calm_def persisted_becomeFollower)

lemma calm_vote: "calm n (snd (HandleRequestVote (\<lambda>_. True) req n))"
proof -
  obtain resp n' where r: "HandleRequestVote (\<lambda>_. True) req n = (resp, n')" by fastforce
  show ?thesis
    using HandleRequestVote_correct [OF r] persisted_HandleRequestVote [of n req]
    unfolding r by (auto simp: calm_def split: if_splits)
qed

lemma calm_heartbeat: "calm n (snd (HandleAppendEntries True now req n))"
proof -
  obtain resp n' where r: "HandleAppendEntries True now req n = (resp, n')" by fastforce
  show ?thesis
    using HandleAppendEntries_correct [OF r] persisted_HandleAppendEntries [of n now req]
    unfolding r by (auto simp: calm_def max_def split: if_splits)
qed

lemma calm_reply: "calm n (heartbeat_reply True resp n)"
  using calm_becomeFollower [of n] by (auto simp: heartbeat_reply_def calm_def)

lemma calm_restart:
  assumes "persisted n" "NewRaftNode (rn_id n) (rn_peers n) (rn_disk n) = Inr n'"
  shows "calm n n'"
  using assms by (auto simp: calm_def persisted_def NewRaftNode_def split: sum.splits)

section \<open>Frames\<close>

lemma set_loop_frame [simp]:
  "nodes_ok ms peers k (set_loop m l s) = nodes_ok ms peers k s" "msgs_ok ms k (set_loop m l s) = msgs_ok ms k s"
  "votes_ok (set_loop m l s) = votes_ok s" "won_ok ms (set_loop m l s) = won_ok ms s"
  "loop_ok ms (set_loop m l s) m' l' = loop_ok ms s m' l'"
  by (simp_all add: nodes_ok_def msgs_ok_def votes_ok_def won_ok_def loop_ok_def voters_def cong: loop.case_cong)

lemma raft_inv_loop:
  assumes "raft_inv ms peers k s" "loop_ok ms s m l"
  shows "raft_inv ms peers k (set_loop m l s)"
  using assms by (simp add: raft_inv_def)

lemma voters_mono: "cl_votes s \<subseteq> cl_votes s' \<Longrightarrow> voters ms s t c \<subseteq> voters ms s' t c"
  by (auto simp: voters_def)

lemma finite_voters [simp]: "finite (voters ms s t c)"
  by (simp add: voters_def)

lemma loop_ok_mono:
  assumes "loop_ok ms s m l" "cl_votes s \<subseteq> cl_votes s'"
    and "rn_state (cl_node s' m) \<noteq> Follower \<Longrightarrow>
      rn_state (cl_node s' m) = rn_state (cl_node s m) \<and> rn_term (cl_node s' m) = rn_term (cl_node s m)"
  shows "loop_ok ms s' m l"
proof (cases l)
  case (Collecting t v pend)
  have "card (voters ms s t m - set pend) \<le> card (voters ms s' t m - set pend)"
    using voters_mono [OF assms(2), of ms t m] by (intro card_mono) auto
  with Collecting assms show ?thesis by (cases "rn_state (cl_node s' m)") (auto simp: loop_ok_def)
qed (use assms in \<open>cases "rn_state (cl_node s' m)"; auto simp: loop_ok_def\<close>)+

lemma won_ok_mono:
  assumes "won_ok ms s" "cl_votes s \<subseteq> cl_votes s'" "cl_won s' = cl_won s"
    and "\<And>m. m \<in> set ms \<Longrightarrow> rn_state (cl_node s' m) = Leader \<Longrightarrow>
      rn_state (cl_node s m) = Leader \<and> rn_term (cl_node s' m) = rn_term (cl_node s m)"
  shows "won_ok ms s'"
proof -
  have "length ms < 2 * card (voters ms s' t c)" if "(t, c) \<in> cl_won s'" for t c
  proof -
    have "card (voters ms s t c) \<le> card (voters ms s' t c)"
      using voters_mono [OF assms(2)] by (intro card_mono) auto
    moreover have "length ms < 2 * card (voters ms s t c)" using that assms(1,3) by (auto simp: won_ok_def)
    ultimately show ?thesis by linarith
  qed
  moreover have "(rn_term (cl_node s' m), m) \<in> cl_won s'" if "m \<in> set ms" "rn_state (cl_node s' m) = Leader" for m
    using assms(1,3) assms(4) [OF that(1)] that by (simp add: won_ok_def)
  ultimately show ?thesis by (auto simp: won_ok_def)
qed

text \<open>Votes stay true of a node that moves calmly.\<close>

lemma votes_ok_calm:
  assumes "votes_ok s" "calm (cl_node s q) n"
  shows "votes_ok (set_node q n s)"
proof (rule votes_okI)
  fix p t c assume v: "(p, t, c) \<in> cl_votes (set_node q n s)"
  then show "c \<noteq> ''''" using votes_okD(1) [OF assms(1)] by simp
  show "t < rn_term (cl_node (set_node q n s) p) \<or>
      t = rn_term (cl_node (set_node q n s) p) \<and> rn_vote (cl_node (set_node q n s) p) = c"
    using votes_okD(1,2) [OF assms(1), of p t c] v assms(2) by (cases "p = q") (auto simp: calm_def)
  fix c' assume "(p, t, c') \<in> cl_votes (set_node q n s)"
  with v show "c = c'" using votes_okD(3) [OF assms(1)] by simp
qed

lemma leader_not_follower: "x = Leader \<Longrightarrow> x \<noteq> Follower"
  by simp

lemma raft_inv_calm:
  assumes "raft_inv ms peers k s" "q \<in> set ms" "calm (cl_node s q) n" "rn_term n \<le> int k"
  shows "raft_inv ms peers k (set_node q n s)"
proof -
  let ?s = "set_node q n s"
  have state: "rn_state (cl_node ?s m) = rn_state (cl_node s m) \<and> rn_term (cl_node ?s m) = rn_term (cl_node s m)"
    if "rn_state (cl_node ?s m) \<noteq> Follower" for m
    using that assms(3) by (cases "m = q") (simp_all add: calm_def)
  note inv = raft_invD [OF assms(1)]
  show ?thesis
  proof (rule raft_invI)
    show "nodes_ok ms peers k ?s"
    proof (rule nodes_okI)
      fix m assume "m \<in> set ms"
      with nodes_okD [OF inv(1), of m] assms(3,4) show "rn_id (cl_node ?s m) = m \<and> rn_peers (cl_node ?s m) = peers m \<and>
        persisted (cl_node ?s m) \<and> 0 \<le> rn_term (cl_node ?s m) \<and> rn_term (cl_node ?s m) \<le> int k"
        by (cases "m = q") (simp_all add: calm_def)
    qed
    show "msgs_ok ms k ?s" using inv(2) by (simp add: msgs_ok_def)
    show "votes_ok ?s" using inv(3) assms(3) by (rule votes_ok_calm)
    show "won_ok ms ?s" using inv(4) by (rule won_ok_mono) (simp, simp, frule state [OF leader_not_follower], simp)
    fix m assume "m \<in> set ms"
    then have "loop_ok ms s m (cl_loop ?s m)" using inv(5) by simp
    then show "loop_ok ms ?s m (cl_loop ?s m)" by (rule loop_ok_mono) (simp, erule state)
  qed
qed

text \<open>More messages and votes, the nodes and loops as they were.\<close>

lemma raft_inv_more:
  assumes "raft_inv ms peers k s" "cl_node s' = cl_node s" "cl_loop s' = cl_loop s" "cl_won s' = cl_won s"
    and "cl_votes s \<subseteq> cl_votes s'" "msgs_ok ms k s'" "votes_ok s'"
  shows "raft_inv ms peers k s'"
proof (rule raft_invI)
  note inv = raft_invD [OF assms(1)]
  show "nodes_ok ms peers k s'" using inv(1) assms(2) by (simp add: nodes_ok_def)
  show "won_ok ms s'" using inv(4) assms(5,4) by (rule won_ok_mono) (simp_all add: assms(2))
  fix m assume "m \<in> set ms"
  then have "loop_ok ms s m (cl_loop s' m)" using inv(5) assms(3) by simp
  then show "loop_ok ms s' m (cl_loop s' m)" using assms(5) by (rule loop_ok_mono) (simp add: assms(2))
qed (use assms(6,7) in simp_all)

section \<open>Every event keeps the invariant\<close>

lemma ev_vote_inv:
  assumes "raft_inv ms peers k s" "(q, req) \<in> cl_vreqs s" "'''' \<notin> set ms"
  shows "raft_inv ms peers k (ev_vote q req s)"
proof -
  note inv = raft_invD [OF assms(1)]
  obtain resp n where r: "HandleRequestVote (\<lambda>_. True) req (cl_node s q) = (resp, n)" by fastforce
  note h = HandleRequestVote_correct [OF r]
  have m: "q \<in> set ms" "rv_CandidateID req \<in> set ms" "rv_Term req \<le> int k" using msgs_okD(1) [OF inv(2) assms(2)] by simp_all
  have k: "rn_term n \<le> int k" using h(4) m(3) nodes_okD(5) [OF inv(1) m(1)] by simp
  let ?s = "set_node q n s"
  have "calm (cl_node s q) n" using calm_vote [of "cl_node s q" req] r by simp
  with assms(1) m(1) have inv1: "raft_inv ms peers k ?s" using k by (intro raft_inv_calm)
  note v = votes_okD [OF raft_invD(3) [OF inv1]]
  let ?t = "ev_vote q req s"
  have votes: "cl_votes ?t = (if rvr_VoteGranted resp then {(q, rv_Term req, rv_CandidateID req)} else {}) \<union> cl_votes ?s"
    and node: "cl_node ?t = cl_node ?s" and vresps: "cl_vresps ?t = insert (rv_CandidateID req, rv_Term req, q, resp) (cl_vresps s)"
    by (simp_all add: ev_vote_def r)
  have new: "c = rv_CandidateID req \<and> rvr_VoteGranted resp" if "(q, rv_Term req, c) \<in> cl_votes ?t" "rvr_VoteGranted resp" for c
    using that votes v(2) [of q "rv_Term req" c] h(8) by auto
  have "votes_ok ?t"
  proof (rule votes_okI)
    fix p t c assume c: "(p, t, c) \<in> cl_votes ?t"
    show "c \<noteq> ''''" using c votes v(1) m(2) assms(3) by (auto split: if_splits)
    show "t < rn_term (cl_node ?t p) \<or> t = rn_term (cl_node ?t p) \<and> rn_vote (cl_node ?t p) = c"
      using c votes v(2) [of p t c] h(8) unfolding node by (auto split: if_splits)
    fix c' assume c': "(p, t, c') \<in> cl_votes ?t"
    show "c = c'"
    proof (cases "rvr_VoteGranted resp \<and> p = q \<and> t = rv_Term req")
      case True
      with new c c' show ?thesis by metis
    next
      case False
      with c c' votes v(3) show ?thesis by (auto split: if_splits)
    qed
  qed
  moreover have "msgs_ok ms k ?t"
  proof (rule msgs_okI)
    fix c t p resp' assume "(c, t, p, resp') \<in> cl_vresps ?t"
    then show "rvr_Term resp' \<le> int k \<and> (rvr_VoteGranted resp' \<longrightarrow> (p, t, c) \<in> cl_votes ?t)"
      using msgs_okD(2) [OF inv(2)] h(5) k unfolding vresps votes by auto
  qed (use msgs_okD [OF inv(2)] in \<open>simp_all add: ev_vote_def r\<close>)
  ultimately show ?thesis
    using raft_inv_more [OF inv1, of ?t] by (simp add: ev_vote_def r)
qed

lemma ev_heartbeat_inv:
  assumes "raft_inv ms peers k s" "(q, req) \<in> cl_hbs s"
  shows "raft_inv ms peers k (ev_heartbeat q req now s)"
proof -
  note inv = raft_invD [OF assms(1)]
  obtain resp n where r: "HandleAppendEntries True now req (cl_node s q) = (resp, n)" by fastforce
  note h = HandleAppendEntries_correct [OF r]
  have m: "q \<in> set ms" "ae_LeaderID req \<in> set ms" "ae_Term req \<le> int k" using msgs_okD(3) [OF inv(2) assms(2)] by simp_all
  have k: "rn_term n \<le> int k" using h(3) m(3) nodes_okD(5) [OF inv(1) m(1)] by simp
  have "calm (cl_node s q) n" using calm_heartbeat [of "cl_node s q" now req] r by simp
  with assms(1) m(1) have inv1: "raft_inv ms peers k (set_node q n s)" using k by (intro raft_inv_calm)
  let ?t = "ev_heartbeat q req now s"
  have "msgs_ok ms k ?t"
  proof (rule msgs_okI)
    fix p hbr assume "(p, hbr) \<in> cl_hbresps ?t"
    then show "p \<in> set ms \<and> aer_Term hbr \<le> int k"
      using msgs_okD(4) [OF inv(2)] h(4) k m(2) by (auto simp: ev_heartbeat_def r)
  qed (use msgs_okD [OF inv(2)] in \<open>simp_all add: ev_heartbeat_def r\<close>)
  moreover have "votes_ok ?t" using raft_invD(3) [OF inv1] by (simp add: votes_ok_def ev_heartbeat_def r)
  ultimately show ?thesis using raft_inv_more [OF inv1, of ?t] by (simp add: ev_heartbeat_def r)
qed

lemma ev_assert_inv:
  assumes "raft_inv ms peers k s" "m \<in> set ms" "set (peer_nodes node_at (cl_node s m)) \<subseteq> set ms"
  shows "raft_inv ms peers k (ev_assert node_at m s)"
proof -
  let ?s = "set_loop m Waiting s" and ?t = "ev_assert node_at m s"
  have inv1: "raft_inv ms peers k ?s" using assms(1) by (rule raft_inv_loop) (simp add: loop_ok_def)
  note inv = raft_invD [OF inv1]
  have "msgs_ok ms k ?t"
  proof (rule msgs_okI)
    fix p hb assume "(p, hb) \<in> cl_hbs ?t"
    then show "p \<in> set ms \<and> ae_LeaderID hb \<in> set ms \<and> ae_Term hb \<le> int k"
      using msgs_okD(3) [OF inv(2), of p hb] assms(2,3) nodes_okD(1,5) [OF inv(1) assms(2)]
      by (auto simp: ev_assert_def heartbeat_request_def)
  qed (use msgs_okD [OF inv(2)] in \<open>simp_all add: ev_assert_def\<close>)
  moreover have "votes_ok ?t" using inv(3) by (simp add: votes_ok_def ev_assert_def)
  ultimately show ?thesis using raft_inv_more [OF inv1, of ?t] by (simp add: ev_assert_def)
qed

lemma config_peers:
  assumes "config_ok ms node_at peers" "nodes_ok ms peers k s" "m \<in> set ms"
  shows "distinct (peer_nodes node_at (cl_node s m))" "set (peer_nodes node_at (cl_node s m)) = set ms - {m}"
    "length ms = Suc (length (rn_peers (cl_node s m)))"
proof -
  have p: "distinct (peer_nodes node_at (cl_node s m))" "set (peer_nodes node_at (cl_node s m)) = set ms - {m}"
    using assms(1,3) nodes_okD(2) [OF assms(2,3)] by (auto simp: config_ok_def list_all_iff peer_nodes_def)
  then show "distinct (peer_nodes node_at (cl_node s m))" "set (peer_nodes node_at (cl_node s m)) = set ms - {m}" by auto
  have "length (peer_nodes node_at (cl_node s m)) = card (set ms - {m})" using distinct_card [OF p(1)] p(2) by simp
  also have "\<dots> = length ms - 1" using assms(1,3) by (simp add: config_ok_def distinct_card)
  moreover have "0 < length ms" using assms(3) by auto
  ultimately show "length ms = Suc (length (rn_peers (cl_node s m)))" by (simp add: peer_nodes_def)
qed

lemma ev_start_inv:
  assumes "raft_inv ms peers k s" "config_ok ms node_at peers" "m \<in> set ms" "int (Suc k) < 2 ^ 63"
  shows "raft_inv ms peers (Suc k) (ev_start node_at m s)"
proof -
  note inv = raft_invD [OF assms(1)]
  note nd = nodes_okD [OF inv(1)]
  let ?n = "becomeCandidate True (cl_node s m)" and ?t = "ev_start node_at m s"
  let ?qs = "peer_nodes node_at (cl_node s m)"
  have tm: "rn_term ?n = rn_term (cl_node s m) + 1"
    using nd(4,5) [OF assms(3)] assms(4) by (simp add: int64_small)
  have qs: "distinct ?qs" "set ?qs = set ms - {m}" using config_peers [OF assms(2) inv(1) assms(3)] by simp_all
  have qs': "peer_nodes node_at ?n = ?qs" by (simp add: peer_nodes_def)
  have t: "cl_node ?t = (cl_node s)(m := ?n)" "cl_loop ?t = (cl_loop s)(m := Collecting (rn_term ?n) 1 ?qs)"
    "cl_votes ?t = insert (m, rn_term ?n, m) (cl_votes s)" "cl_won ?t = cl_won s" "cl_vresps ?t = cl_vresps s"
    "cl_hbs ?t = cl_hbs s" "cl_hbresps ?t = cl_hbresps s"
    "cl_vreqs ?t = cl_vreqs s \<union> (\<lambda>q. (q, \<lparr>rv_Term = rn_term ?n, rv_CandidateID = rn_id ?n\<rparr>)) ` set ?qs"
    by (simp_all add: ev_start_def Let_def qs')
  have sub: "cl_votes s \<subseteq> cl_votes ?t" unfolding t(3) by blast
  note v = votes_okD [OF inv(3)]
  have old: "t' < rn_term ?n" if "(m, t', c) \<in> cl_votes s" for t' c using v(2) [OF that] tm by auto
  show ?thesis
  proof (rule raft_invI)
    show "nodes_ok ms peers (Suc k) ?t"
    proof (rule nodes_okI)
      fix p assume "p \<in> set ms"
      note nd' = nodes_okD [OF inv(1) this]
      have "0 \<le> rn_term ?n \<and> rn_term ?n \<le> int (Suc k)" using nd(4,5) [OF assms(3)] unfolding tm by simp
      then show "rn_id (cl_node ?t p) = p \<and> rn_peers (cl_node ?t p) = peers p \<and>
        persisted (cl_node ?t p) \<and> 0 \<le> rn_term (cl_node ?t p) \<and> rn_term (cl_node ?t p) \<le> int (Suc k)"
        using nd' unfolding t(1) by (cases "p = m") (simp_all del: becomeCandidate_simps(4))
    qed
    show "msgs_ok ms (Suc k) ?t"
    proof (rule msgs_okI)
      fix p req assume "(p, req) \<in> cl_vreqs ?t"
      then consider "(p, req) \<in> cl_vreqs s" | "p \<in> set ?qs" "req = \<lparr>rv_Term = rn_term ?n, rv_CandidateID = rn_id ?n\<rparr>"
        unfolding t(8) by blast
      then show "p \<in> set ms \<and> rv_CandidateID req \<in> set ms \<and> rv_Term req \<le> int (Suc k)"
      proof cases
        case 1
        then show ?thesis using msgs_okD(1) [OF inv(2)] by force
      next
        case 2
        have "rn_term ?n \<le> int (Suc k)" using nd(5) [OF assms(3)] unfolding tm by simp
        with 2 qs(2) assms(3) nd(1) [OF assms(3)] show ?thesis by (simp del: becomeCandidate_simps(4))
      qed
    next
      fix c u p resp assume "(c, u, p, resp) \<in> cl_vresps ?t"
      then show "rvr_Term resp \<le> int (Suc k) \<and> (rvr_VoteGranted resp \<longrightarrow> (p, u, c) \<in> cl_votes ?t)"
        using msgs_okD(2) [OF inv(2), of c u p resp] unfolding t(3,5) by auto
    next
      fix p hb assume "(p, hb) \<in> cl_hbs ?t"
      then show "p \<in> set ms \<and> ae_LeaderID hb \<in> set ms \<and> ae_Term hb \<le> int (Suc k)"
        using msgs_okD(3) [OF inv(2), of p hb] unfolding t(6) by auto
    next
      fix p hbr assume "(p, hbr) \<in> cl_hbresps ?t"
      then show "p \<in> set ms \<and> aer_Term hbr \<le> int (Suc k)"
        using msgs_okD(4) [OF inv(2), of p hbr] unfolding t(7) by auto
    qed
    show "votes_ok ?t"
    proof (rule votes_okI)
      fix p u c assume c: "(p, u, c) \<in> cl_votes ?t"
      show "c \<noteq> ''''" using c v(1) assms(2,3) unfolding t(3) by (auto simp: config_ok_def)
      show "u < rn_term (cl_node ?t p) \<or> u = rn_term (cl_node ?t p) \<and> rn_vote (cl_node ?t p) = c"
        using c v(2) [of p u c] old [of u c] nd(1) [OF assms(3)] unfolding t(1,3) by (cases "p = m") auto
      fix c' assume "(p, u, c') \<in> cl_votes ?t"
      then show "c = c'" using c v(3) [of p u c c'] old [of u c] old [of u c'] unfolding t(3) by auto
    qed
    show "won_ok ms ?t" using inv(4) sub t(4) by (rule won_ok_mono) (simp add: t(1) split: if_splits)
    fix p assume p: "p \<in> set ms"
    show "loop_ok ms ?t p (cl_loop ?t p)"
    proof (cases "p = m")
      case False
      then have "loop_ok ms s p (cl_loop ?t p)" using inv(5) [OF p] by (simp add: t(2))
      then show ?thesis using sub by (rule loop_ok_mono) (simp add: t(1) False)
    next
      case True
      have "m \<in> voters ms ?t (rn_term ?n) m - set ?qs" using assms(3) qs(2) by (simp add: voters_def t(3))
      then have "1 \<le> card (voters ms ?t (rn_term ?n) m - set ?qs)"
        by (metis One_nat_def Suc_leI card_gt_0_iff empty_iff finite_Diff finite_voters)
      with True qs show ?thesis by (simp add: loop_ok_def t(1,2,3))
    qed
  qed
qed

lemma collect_count:
  assumes "loop_ok ms s m (Collecting t v pend)" "q \<in> set pend"
    and "r = None \<or> (\<exists>resp. r = Some resp \<and> (rvr_VoteGranted resp \<longrightarrow> (q, t, m) \<in> cl_votes s))"
  shows "(if vr_granted (vote_result r) then Suc v else v) \<le> card (voters ms s t m - set (remove1 q pend))"
proof -
  have l: "distinct pend" "set pend \<subseteq> set ms - {m}" "v \<le> card (voters ms s t m - set pend)"
    using assms(1) by (simp_all add: loop_ok_def)
  have pend: "set (remove1 q pend) = set pend - {q}" using l(1) by simp
  show ?thesis
  proof (cases "vr_granted (vote_result r)")
    case True
    then have "q \<in> voters ms s t m" using assms(2,3) l(2) by (auto simp: vote_result_def voters_def split: option.splits)
    then have "voters ms s t m - set (remove1 q pend) = insert q (voters ms s t m - set pend)"
      using assms(2) unfolding pend by auto
    with True l(3) assms(2) show ?thesis by simp
  next
    case False
    have "card (voters ms s t m - set pend) \<le> card (voters ms s t m - set (remove1 q pend))"
      unfolding pend by (intro card_mono) auto
    with False l(3) show ?thesis by simp
  qed
qed

lemma majority_wins:
  assumes "config_ok ms node_at peers" "nodes_ok ms peers k s" "m \<in> set ms"
    and "majority (rn_peers (cl_node s m)) \<le> v"
  shows "length ms < 2 * v"
  using assms(4) config_peers(3) [OF assms(1-3)] by (simp add: majority_def)

lemma ev_collect_inv:
  assumes "raft_inv ms peers k s" "config_ok ms node_at peers" "m \<in> set ms"
    and "cl_loop s m = Collecting t v pend" "q \<in> set pend"
    and "case r of None \<Rightarrow> True | Some resp \<Rightarrow> (m, t, q, resp) \<in> cl_vresps s"
  shows "raft_inv ms peers k (ev_collect m t v pend q r s)"
proof -
  note inv = raft_invD [OF assms(1)]
  have lp: "loop_ok ms s m (Collecting t v pend)" using inv(5) [OF assms(3)] assms(4) by simp
  have r: "r = None \<or> (\<exists>resp. r = Some resp \<and> (rvr_VoteGranted resp \<longrightarrow> (q, t, m) \<in> cl_votes s))"
    using assms(6) msgs_okD(2) [OF inv(2)] by (cases r) auto
  note count = collect_count [OF lp assms(5) r]
  obtain out n where o: "collect_vote True (vote_result r) v (cl_node s m) = (out, n)" by fastforce
  note c = collect_vote_correct [OF o]
  show ?thesis
  proof (cases out)
    case (Continue v')
    then have "n = cl_node s m" "v' = (if vr_granted (vote_result r) then Suc v else v)" using c(5) by auto
    moreover have "loop_ok ms s m (Collecting t v' (remove1 q pend))"
      using lp count calculation(2) set_remove1_subset [of q pend] by (auto simp: loop_ok_def)
    ultimately show ?thesis using raft_inv_loop [OF assms(1)] Continue o by (simp add: ev_collect_def)
  next
    case Stepped_down
    then have n: "n = becomeFollower True (vr_term (vote_result r)) (cl_node s m)" using c(6) by auto
    have "vr_term (vote_result r) \<le> int k"
      using assms(6) msgs_okD(2) [OF inv(2)] by (cases r) (auto simp: vote_result_def)
    then have "rn_term n \<le> int k" using nodes_okD(5) [OF inv(1) assms(3)] by (simp add: n)
    then have "raft_inv ms peers k (set_node m n s)"
      using calm_becomeFollower n by (intro raft_inv_calm [OF assms(1,3)]) simp_all
    then have "raft_inv ms peers k (set_loop m Waiting (set_node m n s))" by (rule raft_inv_loop) (simp add: loop_ok_def)
    then show ?thesis using Stepped_down o by (simp add: ev_collect_def)
  next
    case Won
    then have n: "n = becomeLeader (cl_node s m)" "rn_state (cl_node s m) = Candidate" "vr_granted (vote_result r)"
      "majority (rn_peers (cl_node s m)) \<le> Suc v" using c(4) by auto
    have tm: "rn_term (cl_node s m) = t" using lp n(2) by (simp add: loop_ok_def)
    have "Suc v \<le> card (voters ms s t m - set (remove1 q pend))" using count n(3) by simp
    also have "\<dots> \<le> card (voters ms s t m)" by (intro card_mono) auto
    finally have win: "length ms < 2 * card (voters ms s t m)"
      using majority_wins [OF assms(2) inv(1) assms(3) n(4)] by simp
    let ?t = "ev_collect m t v pend q r s"
    have t: "cl_node ?t = (cl_node s)(m := n)" "cl_loop ?t = (cl_loop s)(m := Asserting)" "cl_votes ?t = cl_votes s"
      "cl_won ?t = insert (t, m) (cl_won s)" "cl_vreqs ?t = cl_vreqs s" "cl_vresps ?t = cl_vresps s"
      "cl_hbs ?t = cl_hbs s" "cl_hbresps ?t = cl_hbresps s"
      using Won o n(1) tm by (simp_all add: ev_collect_def)
    have ps: "rn_ps (cl_node ?t p) = rn_ps (cl_node s p)" "rn_id (cl_node ?t p) = rn_id (cl_node s p)"
      "rn_peers (cl_node ?t p) = rn_peers (cl_node s p)" "persisted (cl_node ?t p) = persisted (cl_node s p)" for p
      by (simp_all add: t(1) n(1))
    have vt: "voters ms ?t u c = voters ms s u c" for u c by (simp add: voters_def t(3))
    show ?thesis
    proof (rule raft_invI)
      show "nodes_ok ms peers k ?t" using inv(1) by (simp add: nodes_ok_def ps)
      show "msgs_ok ms k ?t" using inv(2) by (simp add: msgs_ok_def t)
      show "votes_ok ?t" using inv(3) by (simp add: votes_ok_def t(3) ps)
      have "(rn_term (cl_node ?t p), p) \<in> cl_won ?t" if "p \<in> set ms" "rn_state (cl_node ?t p) = Leader" for p
        using inv(4) that tm by (cases "p = m") (simp_all add: won_ok_def t(1,4) n(1))
      then show "won_ok ms ?t" using inv(4) win unfolding won_ok_def vt t(4) by blast
      fix p assume p: "p \<in> set ms"
      show "loop_ok ms ?t p (cl_loop ?t p)"
      proof (cases "p = m")
        case True
        then show ?thesis by (simp add: t(2) loop_ok_def)
      next
        case False
        then have "loop_ok ms s p (cl_loop ?t p)" using inv(5) [OF p] by (simp add: t(2))
        then show ?thesis by (rule loop_ok_mono) (simp_all add: t(1,3) False)
      qed
    qed
  qed
qed

lemma raft_exec_inv:
  assumes "raft_inv ms peers k s" "config_ok ms node_at peers" "int (Suc k) < 2 ^ 63"
    and "raft_exec ms node_at ev s = Some s'"
  shows "raft_inv ms peers (Suc k) s'"
proof (cases "\<exists>m. ev = Start m")
  case True
  then obtain m where "ev = Start m" by blast
  with assms show ?thesis by (auto simp: raft_exec_def split: if_splits intro: ev_start_inv)
next
  case False
  note inv = raft_invD [OF assms(1)]
  have empty: "'''' \<notin> set ms" using assms(2) by (simp add: config_ok_def)
  have "raft_inv ms peers k s'"
  proof (cases ev)
    case (Timer m now)
    with assms show ?thesis
      by (auto simp: raft_exec_def election_due_def loop_ok_def split: if_splits intro: raft_inv_loop)
  next
    case (Start m)
    with False show ?thesis by blast
  next
    case (Vote q req)
    with assms empty show ?thesis by (auto simp: raft_exec_def split: if_splits intro: ev_vote_inv)
  next
    case (Collect m q r)
    with assms show ?thesis
      by (auto simp: raft_exec_def split: if_splits loop.splits intro: ev_collect_inv)
  next
    case (GiveUp m)
    with assms show ?thesis
      by (auto simp: raft_exec_def loop_ok_def split: if_splits loop.splits intro: raft_inv_loop)
  next
    case (Tick m)
    with assms show ?thesis by (auto simp: raft_exec_def loop_ok_def split: if_splits intro: raft_inv_loop)
  next
    case (Assert m)
    then have "m \<in> set ms" "s' = ev_assert node_at m s" using assms(4) by (auto simp: raft_exec_def split: if_splits)
    then show ?thesis using ev_assert_inv [OF assms(1)] config_peers(2) [OF assms(2) inv(1)] by auto
  next
    case (Heartbeat q req now)
    with assms show ?thesis by (auto simp: raft_exec_def split: if_splits intro: ev_heartbeat_inv)
  next
    case (Reply m resp)
    then have rep: "(m, resp) \<in> cl_hbresps s" "s' = set_node m (heartbeat_reply True resp (cl_node s m)) s"
      using assms(4) by (auto simp: raft_exec_def split: if_splits)
    then have m: "m \<in> set ms" "aer_Term resp \<le> int k" using msgs_okD(4) [OF inv(2)] by auto
    then show ?thesis unfolding rep(2)
      using nodes_okD(5) [OF inv(1)] by (intro raft_inv_calm [OF assms(1)] calm_reply) simp_all
  next
    case (Crash m)
    then obtain n where n: "m \<in> set ms" "NewRaftNode m (rn_peers (cl_node s m)) (rn_disk (cl_node s m)) = Inr n"
      "s' = set_loop m Waiting (set_node m n s)"
      using assms(4) by (auto simp: raft_exec_def split: if_splits sum.splits)
    note nd = nodes_okD [OF inv(1) n(1)]
    have "calm (cl_node s m) n" using calm_restart [OF nd(3)] n(2) nd(1) by simp
    moreover have "rn_term n = rn_term (cl_node s m)"
      using nd(3) n(2) by (auto simp: persisted_def NewRaftNode_def split: sum.splits)
    ultimately have "raft_inv ms peers k (set_node m n s)" using nd(5) by (intro raft_inv_calm [OF assms(1) n(1)]) simp_all
    then show ?thesis unfolding n(3) by (rule raft_inv_loop) (simp add: loop_ok_def)
  qed
  then show ?thesis by (rule raft_inv_mono) simp
qed

lemma raft_reach_inv:
  assumes "raft_reach ms node_at peers k s" "config_ok ms node_at peers" "int k < 2 ^ 63"
  shows "raft_inv ms peers k s"
  using assms(1,3)
proof (induction rule: raft_reach.induct)
  case init
  show ?case by (rule raft_inv_init)
next
  case (event k s ev s')
  then have "raft_inv ms peers k s" by simp
  then show ?case using assms(2) event.prems event.hyps(2) by (rule raft_exec_inv)
qed

text \<open>Two majorities of the same members share a voter, who has one vote per term.\<close>

lemma won_unique:
  assumes "raft_inv ms peers k s" "distinct ms" "(t, c) \<in> cl_won s" "(t, c') \<in> cl_won s"
  shows "c = c'"
proof -
  note inv = raft_invD [OF assms(1)]
  have "length ms < 2 * card (voters ms s t c)" "length ms < 2 * card (voters ms s t c')"
    using inv(4) assms(3,4) by (auto simp: won_ok_def)
  moreover have "card (voters ms s t c \<union> voters ms s t c') \<le> length ms"
    using distinct_card [OF assms(2)] card_mono [of "set ms"] by (auto simp: voters_def)
  ultimately have "card (voters ms s t c \<inter> voters ms s t c') \<noteq> 0"
    using card_Un_Int [of "voters ms s t c" "voters ms s t c'", OF finite_voters finite_voters] by linarith
  then obtain q where "q \<in> voters ms s t c" "q \<in> voters ms s t c'" by (metis card.empty disjoint_iff)
  then show ?thesis using votes_okD(3) [OF inv(3)] by (auto simp: voters_def)
qed

section \<open>Properties\<close>

text \<open>Runs by a list of events, for the examples below.\<close>

primrec raft_run :: "string list \<Rightarrow> (string \<Rightarrow> string) \<Rightarrow> raft_event list \<Rightarrow> cluster \<Rightarrow> cluster option" where
  "raft_run ms node_at [] s = Some s"
| "raft_run ms node_at (ev # evs) s = do { s' \<leftarrow> raft_exec ms node_at ev s; raft_run ms node_at evs s' }"

lemma raft_run_reach:
  "raft_reach ms node_at peers k s \<Longrightarrow> raft_run ms node_at evs s = Some s' \<Longrightarrow>
   raft_reach ms node_at peers (k + length evs) s'"
proof (induction evs arbitrary: k s)
  case (Cons ev evs)
  then obtain s1 where "raft_exec ms node_at ev s = Some s1" "raft_run ms node_at evs s1 = Some s'"
    by (auto split: bind_splits)
  with Cons.IH [OF raft_reach.event [OF Cons.prems(1)]] show ?case by simp
qed simp

definition three :: "string list" where
  "three = [''n1'', ''n2'', ''n3'']"

definition three_peers :: "string \<Rightarrow> PeerConfig list" where
  "three_peers m = map (\<lambda>p. \<lparr>peer_ID = p, peer_Addr = p\<rparr>) (filter (\<lambda>p. p \<noteq> m) three)"

abbreviation ask :: "string \<Rightarrow> int \<Rightarrow> RequestVoteRequest" where
  "ask c t \<equiv> \<lparr>rv_Term = t, rv_CandidateID = c\<rparr>"

abbreviation yes :: "int \<Rightarrow> RequestVoteResponse option" where
  "yes t \<equiv> Some \<lparr>rvr_Term = t, rvr_VoteGranted = True\<rparr>"

text \<open>\<open>n1\<close> is elected in term 1 by the vote of \<open>n2\<close>.\<close>

definition election :: "raft_event list" where
  "election = [Timer ''n1'' (10 * Second), Start ''n1'', Vote ''n2'' (ask ''n1'' 1), Collect ''n1'' ''n2'' (yes 1)]"

lemma three_ok: "config_ok three id three_peers"
  by code_simp

lemma raft_inv_one_leader:
  assumes "raft_inv ms peers k s" "distinct ms" "m \<in> set ms" "m' \<in> set ms"
    and "rn_state (cl_node s m) = Leader" "rn_state (cl_node s m') = Leader"
    and "rn_term (cl_node s m) = rn_term (cl_node s m')"
  shows "m = m'"
proof -
  have "(rn_term (cl_node s m), m) \<in> cl_won s" "(rn_term (cl_node s m), m') \<in> cl_won s"
    using raft_invD(4) [OF assms(1)] assms(3-7) by (auto simp: won_ok_def)
  then show ?thesis using won_unique [OF assms(1)] assms(2) by blast
qed

text \<open>C2. Election safety: in every cluster whose peer lists agree on the members, however messages are lost,
  delayed, reordered or repeated and however often nodes crash and restart, two nodes that are
  leader in the same term are the same node (over fewer than \<open>2^63\<close> events, within which the
  64-bit term cannot overflow).\<close>

theorem raft_election_safety:
  assumes "raft_reach ms node_at peers k s" "config_ok ms node_at peers" "int k < 2 ^ 63"
    and "m \<in> set ms" "m' \<in> set ms" "rn_state (cl_node s m) = Leader" "rn_state (cl_node s m') = Leader"
    and "rn_term (cl_node s m) = rn_term (cl_node s m')"
  shows "m = m'"
  using assms(2) by (intro raft_inv_one_leader [OF raft_reach_inv [OF assms(1-3)] _ assms(4-8)]) (simp add: config_ok_def)

theorem raft_election_safety_witness:
  "\<exists>s. raft_reach three id three_peers 4 s \<and> rn_state (cl_node s ''n1'') = Leader \<and>
    (\<forall>m\<in>set three. rn_state (cl_node s m) = Leader \<longrightarrow> rn_term (cl_node s ''n1'') = rn_term (cl_node s m) \<longrightarrow> ''n1'' = m)"
proof -
  have "\<exists>s. raft_run three id election (raft_init three_peers) = Some s \<and> rn_state (cl_node s ''n1'') = Leader"
    by (simp add: election_def raft_exec_def raft_init_def three_def three_peers_def election_due_def fresh_node_def
        NewRaftNode_def loadState_def zero_ps_def electionTimeoutMin_def ev_start_def becomeCandidate_def saveState_def
        peer_nodes_def int64_def ev_vote_def HandleRequestVote_def becomeFollower_def ev_collect_def collect_vote_def
        vote_result_def majority_def becomeLeader_def Let_def)
  then obtain s where s: "raft_run three id election (raft_init three_peers) = Some s" "rn_state (cl_node s ''n1'') = Leader"
    by blast
  have reach: "raft_reach three id three_peers 4 s"
    using raft_run_reach [OF raft_reach.init s(1)] by (simp add: election_def eval_nat_numeral)
  have "''n1'' = m" if "m \<in> set three" "rn_state (cl_node s m) = Leader" "rn_term (cl_node s ''n1'') = rn_term (cl_node s m)" for m
    by (rule raft_election_safety [OF reach three_ok _ _ that(1) s(2) that(2,3)]) (simp_all add: three_def)
  with reach s(2) show ?thesis by blast
qed



text \<open>A crash loses nothing that matters: in every reachable state a node that restarts from its state file
  comes up as a follower with the term and the vote it had.\<close>

theorem raft_restart_keeps_term_and_vote:
  assumes "raft_reach ms node_at peers k s" "config_ok ms node_at peers" "int k < 2 ^ 63" "m \<in> set ms"
  shows "\<exists>n. NewRaftNode m (peers m) (rn_disk (cl_node s m)) = Inr n \<and> rn_state n = Follower \<and>
    rn_term n = rn_term (cl_node s m) \<and> rn_vote n = rn_vote (cl_node s m)"
  using nodes_okD(3) [OF raft_invD(1) [OF raft_reach_inv [OF assms(1-3)]] assms(4)]
  by (simp add: persisted_def NewRaftNode_def)

theorem raft_restart_keeps_term_and_vote_witness:
  "\<exists>n. NewRaftNode ''n2'' (three_peers ''n2'') (rn_disk (cl_node (raft_init three_peers) ''n2'')) = Inr n \<and>
    rn_state n = Follower \<and> rn_term n = rn_term (cl_node (raft_init three_peers) ''n2'') \<and>
    rn_vote n = rn_vote (cl_node (raft_init three_peers) ''n2'')"
  by (rule raft_restart_keeps_term_and_vote [OF raft_reach.init three_ok]) (simp_all add: three_def)


lemma collect_votes_leader:
  "rn_state (collect_votes ok rs v n) = Leader \<Longrightarrow> rn_state n \<noteq> Leader \<Longrightarrow>
   rs \<noteq> [] \<and> majority (rn_peers n) \<le> v + length (filter vr_granted rs)"
proof (induction rs arbitrary: v n)
  case (Cons r rs)
  obtain out n' where o: "collect_vote ok r v n = (out, n')" by fastforce
  note c = collect_vote_correct [OF o]
  show ?case
  proof (cases out)
    case (Continue v')
    with Cons.prems o c(5) Cons.IH [of v' n'] show ?thesis by (auto split: if_splits)
  next
    case Stepped_down
    with Cons.prems o c(6) show ?thesis by simp
  next
    case Won
    with c(4) show ?thesis by simp
  qed
qed simp



text \<open>With a transport whose calls all fail, as the gRPC transport's do until its stubs are generated, and
  in a cluster of one node, whose list of results is empty, no election is ever won: the node
  stays candidate.\<close>

theorem raft_no_leader_without_replies:
  assumes "0 \<le> rn_term n" "rn_term n < 2 ^ 63 - 1"
  shows "rn_state (startElection ok (replicate k (vote_result None)) n) = Candidate"
proof -
  have "collect_votes b (replicate k (vote_result None)) v n' = n'" if "0 \<le> rn_term n'" for b v n'
    using that by (induction k) (simp_all add: collect_vote_def vote_result_def)
  moreover have "0 \<le> rn_term (becomeCandidate (ok 0) n)" using assms by (simp add: int64_small)
  ultimately show ?thesis by (simp add: startElection_def del: becomeCandidate_simps(4))
qed

theorem raft_no_leader_without_replies_witness:
  "rn_state (startElection (\<lambda>_. True) (replicate 2 (vote_result None)) (fresh_node ''n1'' (three_peers ''n1''))) = Candidate"
  by (rule raft_no_leader_without_replies) (simp_all add: zero_ps_def)




text \<open>Election timeouts lie between 150 and 300 milliseconds, the upper bound excluded, so that a healthy
  leader sends at least three heartbeats within every one of them.\<close>

theorem election_timeout_bounds:
  "electionTimeoutMin \<le> randomElectionTimeout draw \<and> randomElectionTimeout draw < electionTimeoutMax \<and>
   3 * heartbeatInterval \<le> randomElectionTimeout draw"
proof -
  have "0 \<le> draw mod 150000000" "draw mod 150000000 < (150000000 :: int)" by simp_all
  then show ?thesis
    by (simp add: randomElectionTimeout_def electionTimeoutMin_def electionTimeoutMax_def heartbeatInterval_def)
qed

end
