(* ===== verification/Config.thy ===== *)
theory Config
  imports GoStrings RaftCluster
begin

text \<open>
  Configuration and start-up: \<open>src/internal/shared/config.go\<close>, the flags and the wiring of
  \<open>src/cmd/cachenode/main.go\<close>, and the part of \<open>src/cmd/api/main.go\<close> that reads the addresses of
  the cluster. Shown here: what a configuration that loads guarantees of the node built
  from it, and that peer flags listing the other nodes give the peer lists the election needs.
\<close>

section \<open>The code: the environment\<close>

text \<open>\<open>os.Getenv\<close>: an unset variable reads as the empty string.\<close>

type_synonym environment = "string \<Rightarrow> string"

record Config =
  cfg_EvictionPolicy :: string
  cfg_CacheCapacity :: int
  cfg_InvalidationStrategy :: string
  cfg_CacheClusterAddr :: string
  cfg_DBDSN :: string
  cfg_Port :: int
  cfg_NodeID :: string
  cfg_Peers :: string

datatype config_error =
    InvalidEvictionPolicy string
  | InvalidInvalidationStrategy string
  | InvalidCacheCapacity int

definition getEnv :: "environment \<Rightarrow> string \<Rightarrow> string \<Rightarrow> string" where
  "getEnv env key defaultVal = (let val = env key in if val \<noteq> '''' then val else defaultVal)"

definition getEnvInt :: "environment \<Rightarrow> string \<Rightarrow> int \<Rightarrow> int" where
  "getEnvInt env key defaultVal =
     (let val = env key
      in if val = '''' then defaultVal else (case Atoi val of None \<Rightarrow> defaultVal | Some n \<Rightarrow> n))"

definition Load :: "environment \<Rightarrow> config_error + Config" where
  "Load env =
     (let cfg = \<lparr>cfg_EvictionPolicy = getEnv env ''EVICTION_POLICY'' ''lru'',
            cfg_CacheCapacity = getEnvInt env ''CACHE_CAPACITY'' 10000,
            cfg_InvalidationStrategy = getEnv env ''INVALIDATION_STRATEGY'' ''write-through'',
            cfg_CacheClusterAddr = getEnv env ''CACHE_CLUSTER_ADDR'' '''',
            cfg_DBDSN = getEnv env ''DB_DSN'' '''',
            cfg_Port = getEnvInt env ''PORT'' 8080,
            cfg_NodeID = getEnv env ''NODE_ID'' '''',
            cfg_Peers = getEnv env ''PEERS'' ''''\<rparr>
      in if cfg_EvictionPolicy cfg \<notin> {''lru'', ''lfu'', ''ttl'', ''random''}
         then Inl (InvalidEvictionPolicy (cfg_EvictionPolicy cfg))
         else if cfg_InvalidationStrategy cfg \<notin> {''ttl'', ''write-through'', ''write-behind''}
         then Inl (InvalidInvalidationStrategy (cfg_InvalidationStrategy cfg))
         else if cfg_CacheCapacity cfg < 1 \<or> cfg_CacheCapacity cfg > 1000000
         then Inl (InvalidCacheCapacity (cfg_CacheCapacity cfg))
         else Inr cfg)"

section \<open>The code: a cache node\<close>

definition parsePeer :: "string \<Rightarrow> PeerConfig" where
  "parsePeer p = \<lparr>peer_ID = (case Index CHR '':'' p of
       Some colonIdx \<Rightarrow> if colonIdx > 0 then take colonIdx p else p
     | None \<Rightarrow> p),
     peer_Addr = p\<rparr>"

primrec parse_parts :: "string list \<Rightarrow> PeerConfig list" where
  "parse_parts [] = []"
| "parse_parts (p # ps) =
     (let q = TrimSpace p in if q = '''' then parse_parts ps else parsePeer q # parse_parts ps)"

definition parsePeers :: "string \<Rightarrow> PeerConfig list" where
  "parsePeers peersFlag = (if peersFlag = '''' then [] else parse_parts (split_on CHR '','' peersFlag))"

datatype start_error = IdRequired | ConfigError config_error | RaftInitError load_error

record cacheNode =
  cn_server :: "evictionPolicy CacheServer"
  cn_raft :: RaftNode
  cn_coordinator :: Coordinator

text \<open>
  \<open>main\<close> up to the start of its goroutines: \<open>draws\<close> is the generator of the random policy,
  \<open>disk\<close> what the node's state file holds. The HTTP and gRPC ports only name addresses.
\<close>

definition start_cachenode :: "environment \<Rightarrow> (nat \<Rightarrow> nat) \<Rightarrow> stateFile \<Rightarrow> string \<Rightarrow> int \<Rightarrow> string \<Rightarrow>
    start_error + cacheNode" where
  "start_cachenode env draws disk nodeID grpcPort peersFlag =
     (if nodeID = '''' then Inl IdRequired
      else case Load env of
        Inl e \<Rightarrow> Inl (ConfigError e)
      | Inr cfg \<Rightarrow>
          let c = cache_New (cfg_CacheCapacity cfg) (buildEvictionPolicy draws (cfg_EvictionPolicy cfg));
              peers = parsePeers peersFlag
          in (case NewRaftNode nodeID peers disk of
                Inl e \<Rightarrow> Inl (RaftInitError e)
              | Inr raftNode \<Rightarrow> Inr \<lparr>cn_server = NewCacheServer nodeID c, cn_raft = raftNode,
                    cn_coordinator = build_coordinator nodeID grpcPort peers\<rparr>))"

section \<open>The code: the cluster addresses of the API\<close>

definition metrics_addr :: "string \<Rightarrow> string \<Rightarrow> string" where
  "metrics_addr host port =
     (if port = ''9001'' then host @ '':9101''
      else if port = ''9002'' then host @ '':9102''
      else if port = ''9003'' then host @ '':9103''
      else host @ '':9101'')"

primrec api_add_nodes :: "string list \<Rightarrow> Ring \<times> (string, string) mapping \<Rightarrow> Ring \<times> (string, string) mapping" where
  "api_add_nodes [] s = s"
| "api_add_nodes (a # as) s =
     (let addr = TrimSpace a
      in if addr = '''' then api_add_nodes as s
         else (case split_first CHR '':'' addr of
            [host, port] \<Rightarrow>
              let nodeID = remove_all ''cache-'' host
              in api_add_nodes as (ring_Add nodeID addr (fst s), Mapping.update nodeID (metrics_addr host port) (snd s))
          | _ \<Rightarrow> api_add_nodes as s))"

definition api_build_cluster :: "string \<Rightarrow> Ring \<times> (string, string) mapping" where
  "api_build_cluster clusterAddr =
     (if clusterAddr \<noteq> '''' then api_add_nodes (split_on CHR '','' clusterAddr) (NewRing, Mapping.empty)
      else (NewRing, Mapping.empty))"

definition api_coordinator :: "Ring \<Rightarrow> Coordinator" where
  "api_coordinator ring = SetLeader True (NewCoordinator ring (build_healthMap ring))"

section \<open>Configurations that load\<close>

lemma LoadD:
  assumes "Load env = Inr cfg"
  shows "cfg_EvictionPolicy cfg \<in> {''lru'', ''lfu'', ''ttl'', ''random''}"
    "cfg_InvalidationStrategy cfg \<in> {''ttl'', ''write-through'', ''write-behind''}"
    "1 \<le> cfg_CacheCapacity cfg" "cfg_CacheCapacity cfg \<le> 1000000"
  using assms by (auto simp: Load_def Let_def split: if_splits)

section \<open>Peer lists\<close>

lemma parsePeer_simps [simp]: "peer_Addr (parsePeer p) = p"
  by (simp add: parsePeer_def)

lemma parse_parts_filter:
  "parse_parts ps = map parsePeer (filter (\<lambda>p. p \<noteq> '''') (map TrimSpace ps))"
  by (induction ps) (auto simp: Let_def)

text \<open>An id without separators, and the address made of it and a port.\<close>

definition plain_id :: "string \<Rightarrow> bool" where
  "plain_id s \<longleftrightarrow> s \<noteq> '''' \<and> list_all (\<lambda>c. c \<noteq> CHR '':'' \<and> c \<noteq> CHR '','' \<and> \<not> is_space c) s"

definition node_addr :: "string \<Rightarrow> nat \<Rightarrow> string" where
  "node_addr n port = n @ '':'' @ decimal port"

lemma digit_not_special: "is_digit c \<Longrightarrow> c \<noteq> CHR '':'' \<and> c \<noteq> CHR '','' \<and> \<not> is_space c"
  by (auto simp: is_digit_def is_space_def)

lemma node_addr_plain:
  assumes "plain_id n"
  shows "CHR '','' \<notin> set (node_addr n port)" "TrimSpace (node_addr n port) = node_addr n port"
    "node_addr n port \<noteq> ''''" "peer_ID (parsePeer (node_addr n port)) = n"
proof -
  have d: "c \<noteq> CHR '':'' \<and> c \<noteq> CHR '','' \<and> \<not> is_space c" if "c \<in> set (decimal port)" for c
    using that decimal_digits(2) [of port] digit_not_special [of c] by (auto simp: list_all_iff)
  have n: "c \<noteq> CHR '':'' \<and> c \<noteq> CHR '','' \<and> \<not> is_space c" if "c \<in> set n" for c
    using that assms by (auto simp: plain_id_def list_all_iff)
  show "CHR '','' \<notin> set (node_addr n port)" "node_addr n port \<noteq> ''''"
    using d n by (auto simp: node_addr_def)
  have "\<not> is_space CHR '':''" by (simp add: is_space_def)
  then show "TrimSpace (node_addr n port) = node_addr n port"
    using d n by (intro TrimSpace_id) (auto simp: node_addr_def list_all_iff)
  have "Index CHR '':'' (node_addr n port) = Some (length n)" "length n > 0"
    using Index_append [of "CHR '':''" n "decimal port"] n assms by (auto simp: node_addr_def plain_id_def)
  then show "peer_ID (parsePeer (node_addr n port)) = n" by (simp add: parsePeer_def node_addr_def)
qed

lemma parsePeers_join:
  assumes "list_all plain_id ns"
  shows "parsePeers (join_with CHR '','' (map (\<lambda>n. node_addr n (port n)) ns)) =
    map (\<lambda>n. \<lparr>peer_ID = n, peer_Addr = node_addr n (port n)\<rparr>) ns"
proof (cases "ns = []")
  case True
  then show ?thesis by (simp add: parsePeers_def)
next
  case False
  let ?as = "map (\<lambda>n. node_addr n (port n)) ns"
  note plain = node_addr_plain [OF bspec [OF assms [unfolded list_all_iff]]]
  have "split_on CHR '','' (join_with CHR '','' ?as) = ?as"
    using False plain(1) by (intro split_on_join_with) (auto simp: list_all_iff)
  moreover have "join_with CHR '','' ?as \<noteq> ''''" using False plain(3) by auto
  moreover have "map TrimSpace ?as = ?as" "filter (\<lambda>p. p \<noteq> '''') ?as = ?as"
    using plain(2,3) by (auto simp: filter_id_conv)
  moreover have "parsePeer (node_addr n (port n)) = \<lparr>peer_ID = n, peer_Addr = node_addr n (port n)\<rparr>" if "n \<in> set ns" for n
    using plain(4) [OF that] parsePeer_simps [of "node_addr n (port n)"] by (metis PeerConfig.surjective unit.exhaust PeerConfig.select_convs)
  ultimately show ?thesis by (simp add: parsePeers_def parse_parts_filter del: map_map) (simp add: comp_def)
qed

text \<open>The flag that lists the addresses of all nodes but one.\<close>

definition peers_flag :: "(string \<Rightarrow> nat) \<Rightarrow> string list \<Rightarrow> string \<Rightarrow> string" where
  "peers_flag port ns m = join_with CHR '','' (map (\<lambda>n. node_addr n (port n)) (filter (\<lambda>n. n \<noteq> m) ns))"

lemma parsePeers_flag:
  assumes "list_all plain_id ns"
  shows "parsePeers (peers_flag port ns m) =
    map (\<lambda>n. \<lparr>peer_ID = n, peer_Addr = node_addr n (port n)\<rparr>) (filter (\<lambda>n. n \<noteq> m) ns)"
  unfolding peers_flag_def by (rule parsePeers_join) (use assms in \<open>auto simp: list_all_iff\<close>)

lemma config_ok_flags:
  assumes "distinct ns" "list_all plain_id ns" "list_all (\<lambda>n. node_at (node_addr n (port n)) = n) ns"
  shows "config_ok ns node_at (\<lambda>m. parsePeers (peers_flag port ns m))"
proof -
  have "map (node_at \<circ> peer_Addr) (parsePeers (peers_flag port ns m)) = filter (\<lambda>n. n \<noteq> m) ns" for m
    using assms(3) by (auto simp: parsePeers_flag [OF assms(2)] list_all_iff intro!: map_idI)
  then show ?thesis using assms by (auto simp: config_ok_def list_all_iff plain_id_def)
qed

section \<open>The node that is started\<close>

context eviction_policy
begin

lemma serve_bounded:
  assumes "cinv (cs_cache s)" "srv_clock_ok op"
  shows "\<exists>r s'. serve P op s = Some (r, s') \<and> cinv (cs_cache s') \<and> c_capacity (cs_cache s') = c_capacity (cs_cache s)"
proof (cases op)
  case (SrvGet clk k)
  then have "mono clk" using assms(2) by (simp add: srv_clock_ok_def)
  from Get_correct [OF assms(1) this, of k] SrvGet show ?thesis by (auto simp: serve_def server_Get_def Let_def)
next
  case (SrvSet clk k v ttl)
  with Set_correct [OF assms(1), of clk k v "secondsToDuration ttl"] show ?thesis by (auto simp: serve_def server_Set_def)
next
  case (SrvDelete k)
  with Delete_correct [OF assms(1), of k] show ?thesis by (auto simp: serve_def server_Delete_def)
qed

lemma serve_all_bounded:
  assumes "cinv (cs_cache s)" "list_all srv_clock_ok ops"
  shows "\<exists>rs s'. serve_all P ops s = Some (rs, s') \<and> cinv (cs_cache s') \<and> c_capacity (cs_cache s') = c_capacity (cs_cache s)"
  using assms
proof (induction ops arbitrary: s)
  case (Cons op ops)
  then obtain r s1 where s1: "serve P op s = Some (r, s1)" "cinv (cs_cache s1)" "c_capacity (cs_cache s1) = c_capacity (cs_cache s)"
    using serve_bounded [of s op] by auto
  with Cons obtain rs s2 where "serve_all P ops s1 = Some (rs, s2)" "cinv (cs_cache s2)"
    "c_capacity (cs_cache s2) = c_capacity (cs_cache s1)"
    using Cons.IH [of s1] by auto
  with s1 show ?case by simp
qed simp

end

lemma ring_Nodes_Add: "ring_Nodes (ring_Add n a r) = insert n (ring_Nodes r)"
  by (auto simp: ring_Nodes_def ring_Add_def Let_def split: prod.splits)

lemma ring_Nodes_build: "ring_Nodes (build_ring nodeID port peers) = insert nodeID (peer_ID ` set peers)"
proof -
  have "ring_Nodes (fold (\<lambda>p. ring_Add (peer_ID p) (peer_Addr p)) peers r) = ring_Nodes r \<union> peer_ID ` set peers" for r
    by (induction peers arbitrary: r) (auto simp: ring_Nodes_Add)
  moreover have "ring_Nodes NewRing = {}" by (simp add: ring_Nodes_def NewRing_def)
  ultimately show ?thesis by (simp add: build_ring_def ring_Nodes_Add)
qed

lemma start_cachenodeD:
  assumes "start_cachenode env draws disk nodeID grpcPort peersFlag = Inr n"
  obtains cfg raftNode where "Load env = Inr cfg" "NewRaftNode nodeID (parsePeers peersFlag) disk = Inr raftNode"
    "n = \<lparr>cn_server = NewCacheServer nodeID (cache_New (cfg_CacheCapacity cfg) (buildEvictionPolicy draws (cfg_EvictionPolicy cfg))),
          cn_raft = raftNode, cn_coordinator = build_coordinator nodeID grpcPort (parsePeers peersFlag)\<rparr>"
  using assms by (auto simp: start_cachenode_def Let_def split: if_splits sum.splits)

section \<open>Properties\<close>

text \<open>C6. A cache node that starts, starts right: the configured policy and capacity are the server's, the
  capacity is between 1 and a million, the node is a follower whose Raft peers are those its
  coordinator's ring registers besides itself, and every sequence of requests is served without
  a panic with at most the configured number of entries.\<close>

theorem started_node_serves:
  assumes "start_cachenode env draws disk nodeID grpcPort peersFlag = Inr n" "list_all srv_clock_ok ops"
  shows "\<exists>cfg. Load env = Inr cfg \<and> 1 \<le> cfg_CacheCapacity cfg \<and> cfg_CacheCapacity cfg \<le> 1000000 \<and>
    cfg_EvictionPolicy cfg = Name policies (c_policy (cs_cache (cn_server n))) \<and>
    rn_id (cn_raft n) = nodeID \<and> rn_state (cn_raft n) = Follower \<and>
    ring_Nodes (co_ring (cn_coordinator n)) = insert nodeID (peer_ID ` set (rn_peers (cn_raft n))) \<and>
    (\<exists>rs s. serve_all policies ops (cn_server n) = Some (rs, s) \<and>
       int (cache_Len (cs_cache s)) \<le> cfg_CacheCapacity cfg)"
proof -
  obtain cfg raftNode where n: "Load env = Inr cfg" "NewRaftNode nodeID (parsePeers peersFlag) disk = Inr raftNode"
    "n = \<lparr>cn_server = NewCacheServer nodeID (cache_New (cfg_CacheCapacity cfg) (buildEvictionPolicy draws (cfg_EvictionPolicy cfg))),
          cn_raft = raftNode, cn_coordinator = build_coordinator nodeID grpcPort (parsePeers peersFlag)\<rparr>"
    using assms(1) by (rule start_cachenodeD)
  note cfg = LoadD [OF n(1)]
  have "any.cinv (cs_cache (cn_server n))" using cache_inv_built by (simp add: n(3) NewCacheServer_def)
  from any.serve_all_bounded [OF this assms(2)] obtain rs s where
    s: "serve_all policies ops (cn_server n) = Some (rs, s)" "any.cinv (cs_cache s)"
    "c_capacity (cs_cache s) = cfg_CacheCapacity cfg"
    by (auto simp: n(3) NewCacheServer_def)
  from any.cinvD(4) [OF s(2)] s(3) cfg(3) have "int (cache_Len (cs_cache s)) \<le> cfg_CacheCapacity cfg"
    by (simp add: cache_Len_def)
  moreover have "Name policies (buildEvictionPolicy draws (cfg_EvictionPolicy cfg)) = cfg_EvictionPolicy cfg"
    using cfg(1) by (auto simp: buildEvictionPolicy_def policies_def policy_Name_def
        lru_Name_def lfu_Name_def ttl_Name_def random_Name_def)
  moreover have "rn_id raftNode = nodeID" "rn_state raftNode = Follower" "rn_peers raftNode = parsePeers peersFlag"
    using n(2) by (auto simp: NewRaftNode_def split: sum.splits)
  moreover have "ring_Nodes (co_ring (build_coordinator nodeID grpcPort peers)) = insert nodeID (peer_ID ` set peers)" for peers
    by (simp add: build_coordinator_def Let_def NewCoordinator_def ring_Nodes_build)
  ultimately show ?thesis using n(1) s(1) cfg(3,4) by (intro exI [of _ cfg]) (simp add: n(3) NewCacheServer_def)
qed

theorem started_node_serves_witness:
  "\<exists>n cfg. start_cachenode (\<lambda>v. if v = ''CACHE_CAPACITY'' then ''2'' else '''') (\<lambda>_. 0) NoFile ''n1'' 9001 ''n2:9002'' = Inr n \<and>
    Load (\<lambda>v. if v = ''CACHE_CAPACITY'' then ''2'' else '''') = Inr cfg \<and> cfg_CacheCapacity cfg = 2 \<and>
    ring_Nodes (co_ring (cn_coordinator n)) = insert ''n1'' (peer_ID ` set (rn_peers (cn_raft n))) \<and>
    (\<exists>rs s. serve_all policies [SrvSet (\<lambda>_. 1) ''a'' ''x'' 60, SrvGet (\<lambda>_. 3) ''a''] (cn_server n) = Some (rs, s) \<and>
       int (cache_Len (cs_cache s)) \<le> cfg_CacheCapacity cfg)"
proof -
  let ?env = "\<lambda>v. if v = ''CACHE_CAPACITY'' then ''2'' else ''''"
  obtain cfg where cfg: "Load ?env = Inr cfg" "cfg_CacheCapacity cfg = 2"
    by (simp add: Load_def getEnv_def getEnvInt_def Atoi_def digits_val_def digit_val_def is_digit_def in_int64_def)
  then obtain n where n: "start_cachenode ?env (\<lambda>_. 0) NoFile ''n1'' 9001 ''n2:9002'' = Inr n"
    by (simp add: start_cachenode_def NewRaftNode_def loadState_def Let_def)
  have "list_all srv_clock_ok [SrvSet (\<lambda>_. 1) ''a'' ''x'' 60, SrvGet (\<lambda>_. 3) ''a'']"
    by (simp add: srv_clock_ok_def mono_def)
  from started_node_serves [OF n this] n cfg show ?thesis by auto
qed



end
