(* ===== verification/Invalidation.thy ===== *)
theory Invalidation
  imports Config
begin

text \<open>
  The invalidation strategies of \<open>src/internal/invalidation\<close> behind the interface of
  \<open>src/internal/shared/invalidation.go\<close>, and the choice among them in \<open>src/cmd/api/main.go\<close>. The
  locale \<open>invalidation_strategy\<close> states what the API relies on whichever strategy is active.
\<close>

section \<open>The code\<close>

text \<open>
  \<open>OnWrite\<close> returns an error or nil, changes the cache, and may start goroutines. The only
  goroutine a strategy starts sleeps and then deletes one key.
\<close>

datatype strategy_error = CacheUpdateFailed cache_error

record backgroundDelete =
  bd_key :: string
  bd_notBefore :: time

type_synonym 'p onWrite = "clock \<Rightarrow> string \<Rightarrow> bytes \<Rightarrow> 'p InMemoryCache \<Rightarrow>
  (strategy_error option \<times> 'p InMemoryCache \<times> backgroundDelete list) option"

definition writeThroughTTL :: duration where
  "writeThroughTTL = 5 * 60 * Second"

definition writeBehindDelay :: duration where
  "writeBehindDelay = 100 * Millisecond"

definition TTL_OnWrite :: "'p onWrite" where
  "TTL_OnWrite clk key value c = Some (None, c, [])"

definition WriteThrough_OnWrite :: "'p EvictionPolicy \<Rightarrow> 'p onWrite" where
  "WriteThrough_OnWrite P clk key value c = do {
     (err, c') \<leftarrow> cache_Set P clk key value writeThroughTTL c;
     Some (map_option CacheUpdateFailed err, c', []) }"

definition WriteBehind_OnWrite :: "'p onWrite" where
  "WriteBehind_OnWrite clk key value c =
     Some (None, c, [\<lparr>bd_key = key, bd_notBefore = clk 0 + writeBehindDelay\<rparr>])"

text \<open>What the goroutine does when it has slept; \<open>Delete\<close> never fails on the in-memory cache.\<close>

definition run_background :: "'p EvictionPolicy \<Rightarrow> backgroundDelete \<Rightarrow> 'p InMemoryCache \<Rightarrow> 'p InMemoryCache option" where
  "run_background P b c = cache_Delete P (bd_key b) c"

datatype InvalidationStrategy = StrategyTTL | StrategyWriteThrough | StrategyWriteBehind

definition strategy_OnWrite :: "'p EvictionPolicy \<Rightarrow> InvalidationStrategy \<Rightarrow> 'p onWrite" where
  "strategy_OnWrite P s = (case s of
     StrategyTTL \<Rightarrow> TTL_OnWrite
   | StrategyWriteThrough \<Rightarrow> WriteThrough_OnWrite P
   | StrategyWriteBehind \<Rightarrow> WriteBehind_OnWrite)"

definition strategy_Name :: "InvalidationStrategy \<Rightarrow> string" where
  "strategy_Name s = (case s of
     StrategyTTL \<Rightarrow> ''ttl'' | StrategyWriteThrough \<Rightarrow> ''write-through'' | StrategyWriteBehind \<Rightarrow> ''write-behind'')"

definition buildInvalidationStrategy :: "string \<Rightarrow> InvalidationStrategy" where
  "buildInvalidationStrategy name =
     (if name = ''write-through'' then StrategyWriteThrough
      else if name = ''write-behind'' then StrategyWriteBehind
      else StrategyTTL)"

section \<open>The contract\<close>

text \<open>
  After a write of \<open>key\<close> the cache keeps its invariant and its capacity. The entry of \<open>key\<close> is
  what it was, or holds the new value for at most five minutes; every other entry is what it
  was or is gone; and only \<open>key\<close> is scheduled for deletion.
\<close>

locale invalidation_strategy = eviction_policy P inv tracked
  for P :: "'p EvictionPolicy" and inv tracked +
  fixes onWrite :: "'p onWrite"
  assumes OnWrite_ok: "cinv c \<Longrightarrow> \<exists>err c' bs. onWrite clk key value c = Some (err, c', bs) \<and> cinv c' \<and>
      c_capacity c' = c_capacity c \<and>
      (cache_view c' key = cache_view c key \<or> cache_view c' key = Some (value, clk 0 + writeThroughTTL)) \<and>
      (\<forall>k. k \<noteq> key \<longrightarrow> cache_view c' k = cache_view c k \<or> cache_view c' k = None) \<and>
      (\<forall>b\<in>set bs. bd_key b = key)"

lemma spec_Set_other:
  assumes "spec_Set cap key v e m m'" "k \<noteq> key"
  shows "m' k = m k \<or> m' k = None"
  using assms by (auto simp: spec_Set_def spec_drop_def split: if_splits option.splits)

context eviction_policy
begin

lemma writeThroughTTL_valid: "0 \<le> writeThroughTTL" "writeThroughTTL \<le> maxTTL" "set_validate writeThroughTTL = None"
  by (simp_all add: writeThroughTTL_def set_validate_def)

lemma WriteThrough_correct:
  assumes "cinv c"
  shows "\<exists>c'. WriteThrough_OnWrite P clk key value c = Some (None, c', []) \<and> cinv c' \<and> c_capacity c' = c_capacity c \<and>
    cache_view c' key = Some (value, clk 0 + writeThroughTTL) \<and>
    (\<forall>k. k \<noteq> key \<longrightarrow> cache_view c' k = cache_view c k \<or> cache_view c' k = None)"
proof -
  obtain c' where c': "cache_Set P clk key value writeThroughTTL c = Some (None, c')" "cinv c'" "c_capacity c' = c_capacity c"
    "spec_Set (c_capacity c) key value (clk 0 + writeThroughTTL) (cache_view c) (cache_view c')"
    using Set_correct [OF assms, of clk key "value" writeThroughTTL] writeThroughTTL_valid by auto
  from spec_Set_same [OF c'(4)] spec_Set_other [OF c'(4)] c'(1-3) show ?thesis
    by (auto simp: WriteThrough_OnWrite_def)
qed

lemma strategy_OnWrite_ok:
  assumes "cinv c"
  shows "\<exists>err c' bs. strategy_OnWrite P s clk key value c = Some (err, c', bs) \<and> cinv c' \<and>
      c_capacity c' = c_capacity c \<and>
      (cache_view c' key = cache_view c key \<or> cache_view c' key = Some (value, clk 0 + writeThroughTTL)) \<and>
      (\<forall>k. k \<noteq> key \<longrightarrow> cache_view c' k = cache_view c k \<or> cache_view c' k = None) \<and>
      (\<forall>b\<in>set bs. bd_key b = key)"
proof (cases s)
  case StrategyWriteThrough
  with WriteThrough_correct [OF assms, of clk key "value"] show ?thesis by (auto simp: strategy_OnWrite_def)
qed (use assms in \<open>simp_all add: strategy_OnWrite_def TTL_OnWrite_def WriteBehind_OnWrite_def\<close>)

end

interpretation anyStrategy: invalidation_strategy policies policy_inv policy_tracked "strategy_OnWrite policies s" for s
  by unfold_locales (rule any.strategy_OnWrite_ok)

lemma strategy_Name_build:
  "name \<in> {''ttl'', ''write-through'', ''write-behind''} \<Longrightarrow> strategy_Name (buildInvalidationStrategy name) = name"
  by (auto simp: buildInvalidationStrategy_def strategy_Name_def)

end
