(* ===== verification/Database.thy ===== *)
theory Database
  imports GoStrings Cluster
begin

text \<open>
  \<open>src/internal/db/postgres.go\<close>: the queries of the product catalogue. PostgreSQL and the pgx
  driver are a parameter: a record of functions from the text of a statement, its arguments
  and the state of the server to a result and the state after. A price (\<open>float64\<close>) is only
  ever passed on, so its type is a parameter \<^typ>\<open>'f\<close>.

  Shown here: the UPDATE statement that \<open>UpdateProduct\<close> puts together, read as SQL, changes
  exactly the fields that are given, and its placeholders match its arguments.
\<close>

section \<open>The code: data\<close>

record 'f dbProduct =
  dp_ID :: string
  dp_Name :: string
  dp_Description :: string
  dp_PriceUSD :: 'f
  dp_Category :: string
  dp_CreatedAt :: time
  dp_UpdatedAt :: time

record 'f dbUpdateRequest =
  du_Name :: "string option"
  du_Description :: "string option"
  du_PriceUSD :: "'f option"
  du_Category :: "string option"

datatype 'f pgArg = PgText string | PgFloat 'f | PgInt int

text \<open>What scanning a row into the variables of a product gives; \<open>NoRows\<close> is \<open>pgx.ErrNoRows\<close>.\<close>

datatype 'f rowResult = NoRows | RowError string | Row "'f dbProduct"

text \<open>
  The calls on the pool: \<open>QueryRow\<close> for one product, \<open>QueryRow\<close> for a count, and \<open>Query\<close>, whose
  rows are each scanned and which may end with an error.
\<close>

record ('s, 'f) pgPool =
  pg_QueryRow :: "string \<Rightarrow> 'f pgArg list \<Rightarrow> 's \<Rightarrow> 'f rowResult \<times> 's"
  pg_Count :: "string \<Rightarrow> 's \<Rightarrow> (string + int) \<times> 's"
  pg_Query :: "string \<Rightarrow> 'f pgArg list \<Rightarrow> 's \<Rightarrow> (string + (string + 'f dbProduct) list \<times> string option) \<times> 's"

datatype db_error = ErrNotFound | DbCreate string | DbGet string string | DbCountFailed string | DbList string
  | DbScan string | DbRows string | DbUpdate string string

section \<open>The code: statements\<close>

text \<open>A raw string literal of the source: each line on its own, indented by two tabs.\<close>

definition sql_text :: "string list \<Rightarrow> string" where
  "sql_text ls = concat (map (\<lambda>l. CHR 0x0A # CHR 0x09 # CHR 0x09 # l) ls) @ [CHR 0x0A, CHR 0x09]"

definition product_columns :: string where
  "product_columns = ''id, name, description, price_usd, category, created_at, updated_at''"

definition insertProductSQL :: string where
  "insertProductSQL = sql_text [''INSERT INTO products (id, name, description, price_usd, category)'',
     ''VALUES ($1, $2, $3, $4, $5)'', ''RETURNING '' @ product_columns]"

definition selectProductSQL :: string where
  "selectProductSQL = sql_text [''SELECT '' @ product_columns, ''FROM products'', ''WHERE id = $1'']"

definition listProductsSQL :: string where
  "listProductsSQL = sql_text [''SELECT '' @ product_columns, ''FROM products'', ''ORDER BY created_at DESC'', ''LIMIT $1 OFFSET $2'']"

definition countProductsSQL :: string where
  "countProductsSQL = ''SELECT COUNT(*) FROM products''"

text \<open>The loop of \<open>joinClauses\<close>, which counts the clauses it has seen.\<close>

primrec join_loop :: "nat \<Rightarrow> string \<Rightarrow> string list \<Rightarrow> string" where
  "join_loop i result [] = result"
| "join_loop i result (c # cs) = join_loop (Suc i) (result @ (if i > 0 then '', '' else '''') @ c) cs"

definition joinClauses :: "string list \<Rightarrow> string" where
  "joinClauses clauses = join_loop 0 '''' clauses"

text \<open>The state of the builder: \<open>setClauses\<close>, \<open>args\<close> and \<open>argIdx\<close>.\<close>

type_synonym 'f setBuilder = "string list \<times> 'f pgArg list \<times> nat"

definition add_clause :: "string \<Rightarrow> 'f pgArg option \<Rightarrow> 'f setBuilder \<Rightarrow> 'f setBuilder" where
  "add_clause column v b = (case v of None \<Rightarrow> b
     | Some a \<Rightarrow> (case b of (setClauses, args, argIdx) \<Rightarrow>
         (setClauses @ [column @ '' = $'' @ decimal argIdx], args @ [a], argIdx + 1)))"

definition set_clauses :: "'f dbUpdateRequest \<Rightarrow> 'f setBuilder" where
  "set_clauses req =
     add_clause ''category'' (map_option PgText (du_Category req))
       (add_clause ''price_usd'' (map_option PgFloat (du_PriceUSD req))
         (add_clause ''description'' (map_option PgText (du_Description req))
           (add_clause ''name'' (map_option PgText (du_Name req)) ([''updated_at = NOW()''], [], 1))))"

definition updateProductSQL :: "'f dbUpdateRequest \<Rightarrow> string" where
  "updateProductSQL req = (case set_clauses req of (setClauses, args, argIdx) \<Rightarrow>
     sql_text [''UPDATE products'', ''SET '' @ joinClauses setClauses, ''WHERE id = $'' @ decimal argIdx,
       ''RETURNING '' @ product_columns])"

definition update_args :: "string \<Rightarrow> 'f dbUpdateRequest \<Rightarrow> 'f pgArg list" where
  "update_args pid req = (case set_clauses req of (setClauses, args, argIdx) \<Rightarrow> args @ [PgText pid])"

section \<open>The code: queries\<close>

definition db_CreateProduct :: "('s, 'f) pgPool \<Rightarrow> 'f dbProduct \<Rightarrow> 's \<Rightarrow> (db_error + 'f dbProduct) \<times> 's" where
  "db_CreateProduct pg p s =
     (case pg_QueryRow pg insertProductSQL
        [PgText (dp_ID p), PgText (dp_Name p), PgText (dp_Description p), PgFloat (dp_PriceUSD p), PgText (dp_Category p)] s of
        (Row created, s') \<Rightarrow> (Inr created, s')
      | (NoRows, s') \<Rightarrow> (Inl (DbCreate ''no rows in result set''), s')
      | (RowError e, s') \<Rightarrow> (Inl (DbCreate e), s'))"

definition db_GetProduct :: "('s, 'f) pgPool \<Rightarrow> string \<Rightarrow> 's \<Rightarrow> (db_error + 'f dbProduct) \<times> 's" where
  "db_GetProduct pg pid s = (case pg_QueryRow pg selectProductSQL [PgText pid] s of
        (Row p, s') \<Rightarrow> (Inr p, s')
      | (NoRows, s') \<Rightarrow> (Inl ErrNotFound, s')
      | (RowError e, s') \<Rightarrow> (Inl (DbGet pid e), s'))"

text \<open>The loop over the rows: the first row that does not scan ends it.\<close>

primrec scan_rows :: "(string + 'f dbProduct) list \<Rightarrow> string + 'f dbProduct list" where
  "scan_rows [] = Inr []"
| "scan_rows (r # rs) = (case r of Inl e \<Rightarrow> Inl e
     | Inr p \<Rightarrow> (case scan_rows rs of Inl e \<Rightarrow> Inl e | Inr ps \<Rightarrow> Inr (p # ps)))"

definition list_offset :: "int \<Rightarrow> int \<Rightarrow> int" where
  "list_offset page pageSize = int64 (int64 (page - 1) * pageSize)"

text \<open>
  The list and the total. When the rows end with an error, the products read so far and the
  total are returned along with it.
\<close>

definition db_ListProducts :: "('s, 'f) pgPool \<Rightarrow> int \<Rightarrow> int \<Rightarrow> 's \<Rightarrow>
    ('f dbProduct list \<times> int \<times> db_error option) \<times> 's" where
  "db_ListProducts pg page pageSize s = (case pg_Count pg countProductsSQL s of
     (Inl e, s1) \<Rightarrow> (([], 0, Some (DbCountFailed e)), s1)
   | (Inr totalCount, s1) \<Rightarrow>
       (case pg_Query pg listProductsSQL [PgInt pageSize, PgInt (list_offset page pageSize)] s1 of
          (Inl e, s2) \<Rightarrow> (([], 0, Some (DbList e)), s2)
        | (Inr (rows, err), s2) \<Rightarrow> (case scan_rows rows of
             Inl e \<Rightarrow> (([], 0, Some (DbScan e)), s2)
           | Inr products \<Rightarrow> ((products, totalCount, map_option DbRows err), s2))))"

definition db_UpdateProduct :: "('s, 'f) pgPool \<Rightarrow> string \<Rightarrow> 'f dbUpdateRequest \<Rightarrow> 's \<Rightarrow> (db_error + 'f dbProduct) \<times> 's" where
  "db_UpdateProduct pg pid req s = (case pg_QueryRow pg (updateProductSQL req) (update_args pid req) s of
        (Row p, s') \<Rightarrow> (Inr p, s')
      | (NoRows, s') \<Rightarrow> (Inl ErrNotFound, s')
      | (RowError e, s') \<Rightarrow> (Inl (DbUpdate pid e), s'))"

section \<open>Reading the statement as SQL\<close>

text \<open>
  What the SET list of an UPDATE means for one row: the assignments are separated by commas,
  and each sets the named column to \<open>NOW()\<close> or to the argument its placeholder numbers. An
  assignment that is not of this form, or whose argument is missing or of the wrong type, has
  no meaning.
\<close>

definition placeholder :: "string \<Rightarrow> 'f pgArg list \<Rightarrow> 'f pgArg option" where
  "placeholder s args = (if HasPrefix ''$'' s then (case Atoi (tl s) of
       Some n \<Rightarrow> if 1 \<le> n \<and> n \<le> int (length args) then Some (args ! nat (n - 1)) else None
     | None \<Rightarrow> None) else None)"

definition assign :: "time \<Rightarrow> 'f pgArg list \<Rightarrow> string \<Rightarrow> 'f dbProduct \<Rightarrow> 'f dbProduct option" where
  "assign now args clause p = (case split_on CHR '' '' (TrimSpace clause) of
     [column, eq, expr] \<Rightarrow>
       if eq \<noteq> ''='' then None
       else if column = ''updated_at'' \<and> expr = ''NOW()'' then Some (p\<lparr>dp_UpdatedAt := now\<rparr>)
       else (case placeholder expr args of
           Some (PgText t) \<Rightarrow>
             if column = ''name'' then Some (p\<lparr>dp_Name := t\<rparr>)
             else if column = ''description'' then Some (p\<lparr>dp_Description := t\<rparr>)
             else if column = ''category'' then Some (p\<lparr>dp_Category := t\<rparr>) else None
         | Some (PgFloat x) \<Rightarrow> if column = ''price_usd'' then Some (p\<lparr>dp_PriceUSD := x\<rparr>) else None
         | _ \<Rightarrow> None)
   | _ \<Rightarrow> None)"

primrec assign_all :: "time \<Rightarrow> 'f pgArg list \<Rightarrow> string list \<Rightarrow> 'f dbProduct \<Rightarrow> 'f dbProduct option" where
  "assign_all now args [] p = Some p"
| "assign_all now args (c # cs) p = Option.bind (assign now args c p) (assign_all now args cs)"

definition given :: "'a option \<Rightarrow> 'a \<Rightarrow> 'a" where
  "given v old = (case v of None \<Rightarrow> old | Some new \<Rightarrow> new)"

definition patch :: "time \<Rightarrow> 'f dbUpdateRequest \<Rightarrow> 'f dbProduct \<Rightarrow> 'f dbProduct" where
  "patch now req p = p\<lparr>dp_Name := given (du_Name req) (dp_Name p),
     dp_Description := given (du_Description req) (dp_Description p),
     dp_PriceUSD := given (du_PriceUSD req) (dp_PriceUSD p),
     dp_Category := given (du_Category req) (dp_Category p), dp_UpdatedAt := now\<rparr>"

lemma decimal_arg_index:
  "decimal (Suc 0) = ''1''" "decimal (Suc (Suc 0)) = ''2''" "decimal (Suc (Suc (Suc 0))) = ''3''"
  "decimal (Suc (Suc (Suc (Suc 0)))) = ''4''" "decimal (Suc (Suc (Suc (Suc (Suc 0))))) = ''5''"
  by code_simp+

lemma Atoi_arg_index:
  "Atoi ''1'' = Some 1" "Atoi ''2'' = Some 2" "Atoi ''3'' = Some 3" "Atoi ''4'' = Some 4" "Atoi ''5'' = Some 5"
  by code_simp+

section \<open>Properties\<close>

text \<open>C18. The UPDATE statement is right for each of the sixteen combinations of given fields: its WHERE clause
  compares the id with the placeholder of the last argument, which is the id, and its SET list
  changes the given fields to the given values, the time of the update, and nothing else.\<close>

theorem update_statement_correct:
  "\<exists>set k. updateProductSQL req = sql_text [''UPDATE products'', ''SET '' @ set, ''WHERE id = $'' @ decimal k,
       ''RETURNING '' @ product_columns] \<and>
     placeholder (''$'' @ decimal k) (update_args pid req) = Some (PgText pid) \<and> k = length (update_args pid req) \<and>
     assign_all now (update_args pid req) (split_on CHR '','' set) p = Some (patch now req p)"
proof (cases req)
  case (fields n d pr c)
  let ?set = "joinClauses (fst (set_clauses req))"
  note defs = set_clauses_def add_clause_def update_args_def joinClauses_def placeholder_def decimal_arg_index Atoi_arg_index
  have "assign_all now (update_args pid req) (split_on CHR '','' ?set) p = Some (patch now req p)"
    by (cases n; cases d; cases pr; cases c)
      (simp_all add: fields defs assign_def TrimSpace_def TrimRight_def is_space_def patch_def given_def)
  moreover have "snd (snd (set_clauses req)) = length (update_args pid req) \<and>
      placeholder (''$'' @ decimal (length (update_args pid req))) (update_args pid req) = Some (PgText pid)"
    by (cases n; cases d; cases pr; cases c)
      (simp_all add: fields defs)
  ultimately show ?thesis
    by (intro exI [of _ ?set] exI [of _ "length (update_args pid req)"])
      (auto simp: updateProductSQL_def split: prod.splits)
qed

end
