(* ===== verification/Api.thy ===== *)
theory Api
  imports Invalidation Database
begin

text \<open>
  The HTTP API of the product catalogue: \<open>model.go\<close>, \<open>middleware.go\<close> (the cache-aside read and write
  paths) and \<open>handler.go\<close> of \<open>src/internal/api\<close>. The text format of \<open>encoding/json\<close> is a parameter:
  \<open>json_Marshal\<close> fails where Go's does (a price that is not a number), \<open>json_Unmarshal\<close> where the
  bytes are not a product.
\<close>

section \<open>The code: data\<close>

record 'f Product =
  ap_ID :: string
  ap_Name :: string
  ap_Description :: string
  ap_PriceUSD :: 'f
  ap_Category :: string
  ap_CreatedAt :: time
  ap_UpdatedAt :: time

record 'f ProductUpdateRequest =
  ur_Name :: "string option"
  ur_Description :: "string option"
  ur_PriceUSD :: "'f option"
  ur_Category :: "string option"

record 'f ProductListResponse =
  pl_Products :: "'f Product list"
  pl_Page :: int
  pl_PageSize :: int
  pl_TotalCount :: int

definition dbToAPIProduct :: "'f dbProduct \<Rightarrow> 'f Product" where
  "dbToAPIProduct p = \<lparr>ap_ID = dp_ID p, ap_Name = dp_Name p, ap_Description = dp_Description p,
     ap_PriceUSD = dp_PriceUSD p, ap_Category = dp_Category p, ap_CreatedAt = dp_CreatedAt p, ap_UpdatedAt = dp_UpdatedAt p\<rparr>"

section \<open>The code: cache-aside\<close>

record 'f json =
  json_Marshal :: "'f Product \<Rightarrow> bytes option"
  json_Unmarshal :: "bytes \<Rightarrow> 'f Product option"

text \<open>What a \<open>CacheAside\<close> is built from, and the state behind its pointers.\<close>

record ('p, 's, 'f) CacheAside =
  ca_policy :: "'p EvictionPolicy"
  ca_pg :: "('s, 'f) pgPool"
  ca_json :: "'f json"
  ca_strategy :: InvalidationStrategy

record ('p, 's) apiState =
  api_cache :: "'p InMemoryCache"
  api_db :: 's
  api_jobs :: "backgroundDelete list"

definition defaultProductTTL :: duration where
  "defaultProductTTL = 5 * 60 * Second"

definition xCacheHeader :: string where
  "xCacheHeader = ''X-Cache''"

definition cacheKeyPrefix :: string where
  "cacheKeyPrefix = ''product:''"

datatype api_error = ProductNotFound | DbUnavailable db_error

text \<open>Lines 60 to 78: the lookup. A corrupt entry is deleted and counts as a miss.\<close>

definition get_cached :: "('p, 's, 'f) CacheAside \<Rightarrow> clock \<Rightarrow> string \<Rightarrow> ('p, 's) apiState \<Rightarrow>
    ('f Product option \<times> ('p, 's) apiState) option" where
  "get_cached ca clk pid s = do {
     let key = cacheKeyPrefix @ pid;
     (r, c) \<leftarrow> cache_Get (ca_policy ca) clk key (api_cache s);
     (case r of
        None \<Rightarrow> Some (None, s\<lparr>api_cache := c\<rparr>)
      | Some v \<Rightarrow> (case json_Unmarshal (ca_json ca) v of
          Some p \<Rightarrow> Some (Some p, s\<lparr>api_cache := c\<rparr>)
        | None \<Rightarrow> do { c' \<leftarrow> cache_Delete (ca_policy ca) key c; Some (None, s\<lparr>api_cache := c'\<rparr>) })) }"

text \<open>Lines 81 to 87: the query.\<close>

definition get_fetch :: "('p, 's, 'f) CacheAside \<Rightarrow> string \<Rightarrow> ('p, 's) apiState \<Rightarrow>
    (api_error + 'f dbProduct) \<times> ('p, 's) apiState" where
  "get_fetch ca pid s = (case db_GetProduct (ca_pg ca) pid (api_db s) of (r, d) \<Rightarrow>
     (case r of
        Inl ErrNotFound \<Rightarrow> Inl ProductNotFound
      | Inl e \<Rightarrow> Inl (DbUnavailable e)
      | Inr p \<Rightarrow> Inr p, s\<lparr>api_db := d\<rparr>))"

text \<open>Lines 95 to 99: populate the cache; errors are dropped.\<close>

definition get_populate :: "('p, 's, 'f) CacheAside \<Rightarrow> clock \<Rightarrow> string \<Rightarrow> 'f Product \<Rightarrow> ('p, 's) apiState \<Rightarrow>
    ('p, 's) apiState option" where
  "get_populate ca clk pid product s = (case json_Marshal (ca_json ca) product of
     None \<Rightarrow> Some s
   | Some serialised \<Rightarrow> do {
       (err, c) \<leftarrow> cache_Set (ca_policy ca) clk (cacheKeyPrefix @ pid) serialised defaultProductTTL (api_cache s);
       Some (s\<lparr>api_cache := c\<rparr>) })"

definition ca_GetProduct :: "('p, 's, 'f) CacheAside \<Rightarrow> clock \<Rightarrow> string \<Rightarrow> ('p, 's) apiState \<Rightarrow>
    ((api_error + 'f Product \<times> string) \<times> ('p, 's) apiState) option" where
  "ca_GetProduct ca clk pid s = do {
     (cached, s1) \<leftarrow> get_cached ca clk pid s;
     (case cached of
        Some p \<Rightarrow> Some (Inr (p, ''HIT''), s1)
      | None \<Rightarrow> (case get_fetch ca pid s1 of
          (Inl e, s2) \<Rightarrow> Some (Inl e, s2)
        | (Inr dbProduct, s2) \<Rightarrow> do {
            let product = dbToAPIProduct dbProduct;
            s3 \<leftarrow> get_populate ca (later 3 clk) pid product s2;
            Some (Inr (product, ''MISS''), s3) })) }"

text \<open>Lines 117 to 131: the write to the source of truth.\<close>

definition update_write :: "('p, 's, 'f) CacheAside \<Rightarrow> string \<Rightarrow> 'f ProductUpdateRequest \<Rightarrow> ('p, 's) apiState \<Rightarrow>
    (api_error + 'f dbProduct) \<times> ('p, 's) apiState" where
  "update_write ca pid req s =
     (let dbReq = \<lparr>du_Name = ur_Name req, du_Description = ur_Description req, du_PriceUSD = ur_PriceUSD req,
                   du_Category = ur_Category req\<rparr>
      in case db_UpdateProduct (ca_pg ca) pid dbReq (api_db s) of (r, d) \<Rightarrow>
           (case r of
              Inl ErrNotFound \<Rightarrow> Inl ProductNotFound
            | Inl e \<Rightarrow> Inl (DbUnavailable e)
            | Inr p \<Rightarrow> Inr p, s\<lparr>api_db := d\<rparr>))"

text \<open>Lines 136 to 139: the strategy. A product that cannot be serialised gives it no bytes.\<close>

definition update_invalidate :: "('p, 's, 'f) CacheAside \<Rightarrow> clock \<Rightarrow> string \<Rightarrow> 'f Product \<Rightarrow> ('p, 's) apiState \<Rightarrow>
    ('p, 's) apiState option" where
  "update_invalidate ca clk pid product s = do {
     let serialised = (case json_Marshal (ca_json ca) product of None \<Rightarrow> [] | Some b \<Rightarrow> b);
     (err, c, jobs) \<leftarrow> strategy_OnWrite (ca_policy ca) (ca_strategy ca) clk (cacheKeyPrefix @ pid) serialised (api_cache s);
     Some (s\<lparr>api_cache := c, api_jobs := api_jobs s @ jobs\<rparr>) }"

definition ca_UpdateProduct :: "('p, 's, 'f) CacheAside \<Rightarrow> clock \<Rightarrow> string \<Rightarrow> 'f ProductUpdateRequest \<Rightarrow> ('p, 's) apiState \<Rightarrow>
    ((api_error + 'f Product) \<times> ('p, 's) apiState) option" where
  "ca_UpdateProduct ca clk pid req s = (case update_write ca pid req s of
     (Inl e, s1) \<Rightarrow> Some (Inl e, s1)
   | (Inr dbProduct, s1) \<Rightarrow> do {
       let product = dbToAPIProduct dbProduct;
       s2 \<leftarrow> update_invalidate ca clk pid product s1;
       Some (Inr product, s2) })"

section \<open>The code: handlers\<close>

datatype 'f httpBody = NoBody | BodyError string | BodyProduct "'f Product" | BodyList "'f ProductListResponse"

record 'f responseWriter =
  rw_header :: "string \<rightharpoonup> string"
  rw_status :: int
  rw_body :: "'f httpBody"

definition newWriter :: "'f responseWriter" where
  "newWriter = \<lparr>rw_header = Map.empty, rw_status = 200, rw_body = NoBody\<rparr>"

definition header_Set :: "string \<Rightarrow> string \<Rightarrow> 'f responseWriter \<Rightarrow> 'f responseWriter" where
  "header_Set k v w = w\<lparr>rw_header := (rw_header w)(k \<mapsto> v)\<rparr>"

definition header_Get :: "string \<Rightarrow> 'f responseWriter \<Rightarrow> string" where
  "header_Get k w = (case rw_header w k of None \<Rightarrow> '''' | Some v \<Rightarrow> v)"

definition writeJSON :: "int \<Rightarrow> 'f httpBody \<Rightarrow> 'f responseWriter \<Rightarrow> 'f responseWriter" where
  "writeJSON status v w = (header_Set ''Content-Type'' ''application/json'' w)\<lparr>rw_status := status, rw_body := v\<rparr>"

definition writeError :: "int \<Rightarrow> string \<Rightarrow> 'f responseWriter \<Rightarrow> 'f responseWriter" where
  "writeError status msg w = writeJSON status (BodyError msg) w"

definition h_GetProduct :: "('p, 's, 'f) CacheAside \<Rightarrow> clock \<Rightarrow> string \<Rightarrow> ('p, 's) apiState \<Rightarrow>
    ('f responseWriter \<times> ('p, 's) apiState) option" where
  "h_GetProduct ca clk pid s = do {
     (r, s') \<leftarrow> ca_GetProduct ca clk pid s;
     Some (case r of
         Inl ProductNotFound \<Rightarrow> writeError 404 ''product not found'' newWriter
       | Inl (DbUnavailable _) \<Rightarrow> writeError 503 ''service temporarily unavailable'' newWriter
       | Inr (product, cacheStatus) \<Rightarrow>
           let w = header_Set xCacheHeader cacheStatus newWriter
           in if header_Get xCacheHeader w \<noteq> cacheStatus
              then writeError 500 ''failed to set cache status header'' w
              else writeJSON 200 (BodyProduct product) w, s') }"

text \<open>\<open>query\<close> is \<open>r.URL.Query().Get\<close>.\<close>

definition queryInt :: "(string \<Rightarrow> string) \<Rightarrow> string \<Rightarrow> int \<Rightarrow> int" where
  "queryInt query key defaultVal =
     (let s = query key
      in if s = '''' then defaultVal else (case Atoi s of None \<Rightarrow> defaultVal | Some n \<Rightarrow> n))"

definition list_params :: "(string \<Rightarrow> string) \<Rightarrow> int \<times> int" where
  "list_params query =
     (let page = queryInt query ''page'' 1; pageSize = queryInt query ''pageSize'' 20;
          pageSize = (if pageSize < 1 then 1 else pageSize);
          pageSize = (if pageSize > 100 then 100 else pageSize);
          page = (if page < 1 then 1 else page)
      in (page, pageSize))"

definition h_ListProducts :: "('p, 's, 'f) CacheAside \<Rightarrow> (string \<Rightarrow> string) \<Rightarrow> ('p, 's) apiState \<Rightarrow>
    'f responseWriter \<times> ('p, 's) apiState" where
  "h_ListProducts ca query s = (case list_params query of (page, pageSize) \<Rightarrow>
     (case db_ListProducts (ca_pg ca) page pageSize (api_db s) of ((products, tot, err), d) \<Rightarrow>
        (if err \<noteq> None then writeError 503 ''service temporarily unavailable'' newWriter
         else writeJSON 200 (BodyList \<lparr>pl_Products = map dbToAPIProduct products, pl_Page = page,
                pl_PageSize = pageSize, pl_TotalCount = tot\<rparr>) newWriter, s\<lparr>api_db := d\<rparr>)))"

text \<open>The text of the error \<open>CreateProduct\<close> wraps.\<close>

definition db_error_text :: "db_error \<Rightarrow> string" where
  "db_error_text e = (case e of
     ErrNotFound \<Rightarrow> ''db: product not found''
   | DbCreate m \<Rightarrow> ''db: create product: '' @ m
   | DbGet pid m \<Rightarrow> ''db: get product '' @ pid @ '': '' @ m
   | DbCountFailed m \<Rightarrow> ''db: count products: '' @ m
   | DbList m \<Rightarrow> ''db: list products: '' @ m
   | DbScan m \<Rightarrow> ''db: scan product: '' @ m
   | DbRows m \<Rightarrow> m
   | DbUpdate pid m \<Rightarrow> ''db: update product '' @ pid @ '': '' @ m)"

definition isUniqueViolation :: "db_error \<Rightarrow> bool" where
  "isUniqueViolation err \<longleftrightarrow> Contains ''23505'' (db_error_text err) \<or> Contains ''unique'' (db_error_text err)"

text \<open>\<open>decoded\<close> is what \<open>json.Decode\<close> makes of the request body.\<close>

definition h_CreateProduct :: "('p, 's, 'f) CacheAside \<Rightarrow> string + 'f Product \<Rightarrow> ('p, 's) apiState \<Rightarrow>
    'f responseWriter \<times> ('p, 's) apiState" where
  "h_CreateProduct ca decoded s = (case decoded of
     Inl err \<Rightarrow> (writeError 400 (''invalid request body: '' @ err) newWriter, s)
   | Inr p \<Rightarrow>
       if ap_ID p = '''' \<or> ap_Name p = '''' then (writeError 400 ''id and name are required'' newWriter, s)
       else (case db_CreateProduct (ca_pg ca) \<lparr>dp_ID = ap_ID p, dp_Name = ap_Name p, dp_Description = ap_Description p,
                dp_PriceUSD = ap_PriceUSD p, dp_Category = ap_Category p, dp_CreatedAt = 0, dp_UpdatedAt = 0\<rparr> (api_db s) of
           (Inl err, d) \<Rightarrow>
             (if isUniqueViolation err then writeError 409 ''product with this ID already exists'' newWriter
              else writeError 503 ''service temporarily unavailable'' newWriter, s\<lparr>api_db := d\<rparr>)
         | (Inr dbProduct, d) \<Rightarrow> (writeJSON 201 (BodyProduct (dbToAPIProduct dbProduct)) newWriter, s\<lparr>api_db := d\<rparr>)))"

definition h_UpdateProduct :: "('p, 's, 'f) CacheAside \<Rightarrow> clock \<Rightarrow> string \<Rightarrow> string + 'f ProductUpdateRequest \<Rightarrow>
    ('p, 's) apiState \<Rightarrow> ('f responseWriter \<times> ('p, 's) apiState) option" where
  "h_UpdateProduct ca clk pid decoded s = (case decoded of
     Inl err \<Rightarrow> Some (writeError 400 (''invalid request body: '' @ err) newWriter, s)
   | Inr req \<Rightarrow> do {
       (r, s') \<leftarrow> ca_UpdateProduct ca clk pid req s;
       Some (case r of
           Inl ProductNotFound \<Rightarrow> writeError 404 ''product not found'' newWriter
         | Inl (DbUnavailable _) \<Rightarrow> writeError 503 ''service temporarily unavailable'' newWriter
         | Inr product \<Rightarrow> writeJSON 200 (BodyProduct product) newWriter, s') })"

section \<open>Runs of requests\<close>

text \<open>
  Requests handled one after the other; \<open>Background i\<close> lets the \<open>i\<close>-th pending goroutine delete its key.
\<close>

datatype 'f apiRequest =
    ApiGet clock string
  | ApiList "string \<Rightarrow> string"
  | ApiCreate "string + 'f Product"
  | ApiPut clock string "string + 'f ProductUpdateRequest"
  | Background nat

definition run_job :: "'p EvictionPolicy \<Rightarrow> nat \<Rightarrow> ('p, 's) apiState \<Rightarrow> ('p, 's) apiState option" where
  "run_job P i s = (if i < length (api_jobs s) then do {
     c \<leftarrow> run_background P (api_jobs s ! i) (api_cache s);
     Some (s\<lparr>api_cache := c, api_jobs := take i (api_jobs s) @ drop (Suc i) (api_jobs s)\<rparr>) } else Some s)"

definition api_step :: "('p, 's, 'f) CacheAside \<Rightarrow> 'f apiRequest \<Rightarrow> ('p, 's) apiState \<Rightarrow>
    ('f responseWriter \<times> ('p, 's) apiState) option" where
  "api_step ca req s = (case req of
     ApiGet clk pid \<Rightarrow> h_GetProduct ca clk pid s
   | ApiList query \<Rightarrow> Some (h_ListProducts ca query s)
   | ApiCreate decoded \<Rightarrow> Some (h_CreateProduct ca decoded s)
   | ApiPut clk pid decoded \<Rightarrow> h_UpdateProduct ca clk pid decoded s
   | Background i \<Rightarrow> map_option (Pair newWriter) (run_job (ca_policy ca) i s))"

primrec api_run :: "('p, 's, 'f) CacheAside \<Rightarrow> 'f apiRequest list \<Rightarrow> ('p, 's) apiState \<Rightarrow> ('p, 's) apiState option" where
  "api_run ca [] s = Some s"
| "api_run ca (req # reqs) s = do { (w, s1) \<leftarrow> api_step ca req s; api_run ca reqs s1 }"

definition api_start :: "int \<Rightarrow> 'p \<Rightarrow> 's \<Rightarrow> ('p, 's) apiState" where
  "api_start capacity policy d = \<lparr>api_cache = cache_New capacity policy, api_db = d, api_jobs = []\<rparr>"

definition request_clock_ok :: "'f apiRequest \<Rightarrow> bool" where
  "request_clock_ok req \<longleftrightarrow> (case req of ApiGet clk _ \<Rightarrow> mono clk | ApiPut clk _ _ \<Rightarrow> mono clk | _ \<Rightarrow> True)"

end
