(* ===== verification/ApiCoherence.thy ===== *)
theory ApiCoherence
  imports Api
begin

text \<open>
  What a client of the API sees of the cache. With write-through, requests handled one after the
  other always read the current row; with any strategy, what is served from the cache was in
  the database within the last five minutes; and interleaving a read with a write breaks the
  former. PostgreSQL and \<open>encoding/json\<close> enter through the named hypotheses \<open>pg_ok\<close> and \<open>json_ok\<close>.
\<close>

section \<open>What is relied on\<close>

text \<open>
  The statements do what SQL says, on a table \<open>tab s\<close> from ids to rows: a select returns the row and
  changes nothing; an update that returns a row has stored that row, and otherwise has changed
  nothing; an insert changes no existing row; the list queries change nothing.
\<close>

definition pg_ok :: "('s, 'f) pgPool \<Rightarrow> ('s \<Rightarrow> string \<rightharpoonup> 'f dbProduct) \<Rightarrow> bool" where
  "pg_ok pg tab \<longleftrightarrow>
     (\<forall>pid s r s'. pg_QueryRow pg selectProductSQL [PgText pid] s = (r, s') \<longrightarrow>
        tab s' = tab s \<and> (case r of Row p \<Rightarrow> tab s pid = Some p | NoRows \<Rightarrow> tab s pid = None | RowError _ \<Rightarrow> True)) \<and>
     (\<forall>pid req s r s'. pg_QueryRow pg (updateProductSQL req) (update_args pid req) s = (r, s') \<longrightarrow>
        (case r of Row p \<Rightarrow> tab s' = (tab s)(pid \<mapsto> p) | _ \<Rightarrow> tab s' = tab s)) \<and>
     (\<forall>args s r s' pid q. pg_QueryRow pg insertProductSQL args s = (r, s') \<longrightarrow> tab s pid = Some q \<longrightarrow> tab s' pid = Some q) \<and>
     (\<forall>s. tab (snd (pg_Count pg countProductsSQL s)) = tab s) \<and>
     (\<forall>args s. tab (snd (pg_Query pg listProductsSQL args s)) = tab s)"

text \<open>What is serialised reads back as the product it was, and no bytes are no product.\<close>

definition json_ok :: "'f json \<Rightarrow> bool" where
  "json_ok js \<longleftrightarrow> (\<forall>p b. json_Marshal js p = Some b \<longrightarrow> json_Unmarshal js b = Some p) \<and> json_Unmarshal js [] = None"

lemma db_GetProduct_ok:
  assumes "pg_ok pg tab" "db_GetProduct pg pid d = (r, d')"
  shows "tab d' = tab d" "r = Inr q \<Longrightarrow> tab d pid = Some q" "r = Inl ErrNotFound \<Longrightarrow> tab d pid = None"
proof -
  obtain x where x: "pg_QueryRow pg selectProductSQL [PgText pid] d = (x, d')"
    "r = (case x of Row p \<Rightarrow> Inr p | NoRows \<Rightarrow> Inl ErrNotFound | RowError e \<Rightarrow> Inl (DbGet pid e))"
    using assms(2) by (auto simp: db_GetProduct_def split: rowResult.splits prod.splits)
  with assms(1) have "tab d' = tab d \<and> (case x of Row p \<Rightarrow> tab d pid = Some p | NoRows \<Rightarrow> tab d pid = None | RowError _ \<Rightarrow> True)"
    unfolding pg_ok_def by blast
  then show "tab d' = tab d" "r = Inr q \<Longrightarrow> tab d pid = Some q" "r = Inl ErrNotFound \<Longrightarrow> tab d pid = None"
    using x(2) by (auto split: rowResult.splits)
qed

lemma db_UpdateProduct_ok:
  assumes "pg_ok pg tab" "db_UpdateProduct pg pid req d = (r, d')"
  shows "case r of Inr q \<Rightarrow> tab d' = (tab d)(pid \<mapsto> q) | Inl _ \<Rightarrow> tab d' = tab d"
proof -
  obtain x where x: "pg_QueryRow pg (updateProductSQL req) (update_args pid req) d = (x, d')"
    "r = (case x of Row p \<Rightarrow> Inr p | NoRows \<Rightarrow> Inl ErrNotFound | RowError e \<Rightarrow> Inl (DbUpdate pid e))"
    using assms(2) by (auto simp: db_UpdateProduct_def split: rowResult.splits prod.splits)
  with assms(1) have "case x of Row p \<Rightarrow> tab d' = (tab d)(pid \<mapsto> p) | _ \<Rightarrow> tab d' = tab d"
    unfolding pg_ok_def by blast
  then show ?thesis using x(2) by (auto split: rowResult.splits)
qed

lemma db_CreateProduct_ok:
  assumes "pg_ok pg tab" "db_CreateProduct pg p d = (r, d')" "tab d pid = Some q"
  shows "tab d' pid = Some q"
proof -
  obtain args x where "pg_QueryRow pg insertProductSQL args d = (x, d')"
    using assms(2) by (auto simp: db_CreateProduct_def split: rowResult.splits prod.splits)
  with assms(1,3) show ?thesis unfolding pg_ok_def by blast
qed

lemma db_ListProducts_ok:
  assumes "pg_ok pg tab" "db_ListProducts pg page pageSize d = (r, d')"
  shows "tab d' = tab d"
proof -
  have count: "tab d1 = tab d" if "pg_Count pg countProductsSQL d = (x, d1)" for x d1
    using assms(1) that unfolding pg_ok_def by (metis snd_conv)
  have list: "tab d2 = tab d1" if "pg_Query pg listProductsSQL args d1 = (x, d2)" for args d1 x d2
    using assms(1) that unfolding pg_ok_def by (metis snd_conv)
  show ?thesis
    using assms(2) count list by (auto simp: db_ListProducts_def split: prod.splits sum.splits)
qed

section \<open>What the cache holds of products\<close>

definition cached_ok :: "'f json \<Rightarrow> (string \<Rightarrow> 'f Product \<Rightarrow> time \<Rightarrow> bool) \<Rightarrow> 'p InMemoryCache \<Rightarrow> bool" where
  "cached_ok js ok c \<longleftrightarrow> (\<forall>pid v e p. cache_view c (cacheKeyPrefix @ pid) = Some (v, e) \<longrightarrow>
     json_Unmarshal js v = Some p \<longrightarrow> ok pid p e)"

lemma cached_okD:
  "cached_ok js ok c \<Longrightarrow> cache_view c (cacheKeyPrefix @ pid) = Some (v, e) \<Longrightarrow> json_Unmarshal js v = Some p \<Longrightarrow> ok pid p e"
  by (simp add: cached_ok_def)

lemma cached_ok_mono:
  assumes "cached_ok js ok c" "\<And>pid p e. ok pid p e \<Longrightarrow> ok' pid p e"
  shows "cached_ok js ok' c"
  using assms unfolding cached_ok_def by blast

lemma cached_ok_shrunk:
  assumes "cached_ok js ok c" "\<And>k. cache_view c' k = cache_view c k \<or> cache_view c' k = None"
  shows "cached_ok js ok c'"
  unfolding cached_ok_def
proof (intro allI impI)
  fix pid v e p
  assume v: "cache_view c' (cacheKeyPrefix @ pid) = Some (v, e)" "json_Unmarshal js v = Some p"
  then have "cache_view c (cacheKeyPrefix @ pid) = Some (v, e)" using assms(2) [of "cacheKeyPrefix @ pid"] by simp
  from cached_okD [OF assms(1) this v(2)] show "ok pid p e" .
qed

text \<open>Writing the serialised product of one id.\<close>

lemma cached_ok_written:
  assumes "cached_ok js (\<lambda>pid' p e. pid' \<noteq> pid \<longrightarrow> ok pid' p e) c"
    and "cache_view c' (cacheKeyPrefix @ pid) = Some (b, t)" "\<And>p. json_Unmarshal js b = Some p \<Longrightarrow> ok pid p t"
    and "\<And>k. k \<noteq> cacheKeyPrefix @ pid \<Longrightarrow> cache_view c' k = cache_view c k \<or> cache_view c' k = None"
  shows "cached_ok js ok c'"
  unfolding cached_ok_def
proof (intro allI impI)
  fix pid' v e p
  assume v: "cache_view c' (cacheKeyPrefix @ pid') = Some (v, e)" "json_Unmarshal js v = Some p"
  show "ok pid' p e"
  proof (cases "pid' = pid")
    case True
    with v assms(2,3) show ?thesis by simp
  next
    case False
    then have "cache_view c (cacheKeyPrefix @ pid') = Some (v, e)"
      using assms(4) [of "cacheKeyPrefix @ pid'"] v(1) by simp
    with False show ?thesis using cached_okD [OF assms(1) _ v(2)] by blast
  qed
qed

lemma cached_ok_New: "cached_ok js ok (cache_New cap policy)"
  by (simp add: cached_ok_def)

section \<open>The sections of the read and write paths\<close>

context eviction_policy
begin

lemma get_cached_ok:
  assumes "ca_policy ca = P" "cinv (api_cache s)" "mono clk"
  shows "\<exists>r c. get_cached ca clk pid s = Some (r, s\<lparr>api_cache := c\<rparr>) \<and> cinv c \<and>
    (\<forall>k. cache_view c k = cache_view (api_cache s) k \<or> cache_view c k = None) \<and>
    (\<forall>p. r = Some p \<longrightarrow> (\<exists>v e. cache_view (api_cache s) (cacheKeyPrefix @ pid) = Some (v, e) \<and>
       json_Unmarshal (ca_json ca) v = Some p \<and> \<not> expired_at (clk 0) e))"
proof -
  let ?key = "cacheKeyPrefix @ pid" and ?m = "cache_view (api_cache s)"
  obtain c1 where c1: "cache_Get P clk ?key (api_cache s) = Some (fst (spec_Get (clk 0) ?key ?m), c1)" "cinv c1"
    "cache_view c1 = snd (spec_Get (clk 0) ?key ?m)"
    using Get_correct [OF assms(2,3)] by blast
  have shrunk: "cache_view c1 k = ?m k \<or> cache_view c1 k = None" for k
    by (auto simp: c1(3) spec_Get_def split: option.splits)
  show ?thesis
  proof (cases "fst (spec_Get (clk 0) ?key ?m)")
    case None
    with c1(1) assms(1) have "get_cached ca clk pid s = Some (None, s\<lparr>api_cache := c1\<rparr>)"
      by (simp add: get_cached_def Let_def)
    with c1(2) shrunk show ?thesis by blast
  next
    case (Some v)
    then obtain e where e: "?m ?key = Some (v, e)" "\<not> expired_at (clk 0) e"
      by (auto simp: spec_Get_def split: option.splits if_splits)
    show ?thesis
    proof (cases "json_Unmarshal (ca_json ca) v")
      case None
      obtain c2 where c2: "cache_Delete P ?key c1 = Some c2" "cinv c2" "cache_view c2 = (cache_view c1)(?key := None)"
        using Delete_correct [OF c1(2)] by blast
      from Some None c1(1) c2(1) assms(1) have "get_cached ca clk pid s = Some (None, s\<lparr>api_cache := c2\<rparr>)"
        by (simp add: get_cached_def Let_def)
      moreover have "cache_view c2 k = ?m k \<or> cache_view c2 k = None" for k using shrunk [of k] c2(3) by simp
      ultimately show ?thesis using c2(2) by blast
    next
      case p: (Some p)
      from Some p c1(1) assms(1) have "get_cached ca clk pid s = Some (Some p, s\<lparr>api_cache := c1\<rparr>)"
        by (simp add: get_cached_def Let_def)
      with p c1(2) shrunk e show ?thesis by (intro exI [of _ "Some p"] exI [of _ c1]) simp
    qed
  qed
qed

lemma get_populate_ok:
  assumes "ca_policy ca = P" "cinv (api_cache s)" "json_ok (ca_json ca)"
  shows "\<exists>c. get_populate ca clk pid product s = Some (s\<lparr>api_cache := c\<rparr>) \<and> cinv c \<and>
    (\<forall>ok. cached_ok (ca_json ca) ok (api_cache s) \<longrightarrow> ok pid product (clk 0 + defaultProductTTL) \<longrightarrow> cached_ok (ca_json ca) ok c)"
proof (cases "json_Marshal (ca_json ca) product")
  case None
  with assms(2) show ?thesis by (intro exI [of _ "api_cache s"]) (simp add: get_populate_def)
next
  case (Some b)
  have ttl: "0 \<le> defaultProductTTL" "defaultProductTTL \<le> maxTTL" by (simp_all add: defaultProductTTL_def)
  then obtain err c where c: "cache_Set P clk (cacheKeyPrefix @ pid) b defaultProductTTL (api_cache s) = Some (err, c)" "cinv c"
    "spec_Set (c_capacity (api_cache s)) (cacheKeyPrefix @ pid) b (clk 0 + defaultProductTTL) (cache_view (api_cache s)) (cache_view c)"
    using Set_correct [OF assms(2), of clk "cacheKeyPrefix @ pid" b defaultProductTTL] by auto
  have "json_Unmarshal (ca_json ca) b = Some product" using Some assms(3) by (simp add: json_ok_def)
  then have "cached_ok (ca_json ca) ok c"
    if "cached_ok (ca_json ca) ok (api_cache s)" "ok pid product (clk 0 + defaultProductTTL)" for ok
    using that spec_Set_same [OF c(3)] spec_Set_other [OF c(3)]
    by (intro cached_ok_written [of _ pid ok "api_cache s" c]) (auto intro: cached_ok_mono)
  with Some c(1,2) assms(1) show ?thesis by (auto simp: get_populate_def)
qed

lemma update_invalidate_ok:
  assumes "ca_policy ca = P" "cinv (api_cache s)" "json_ok (ca_json ca)"
  shows "\<exists>c jobs. update_invalidate ca clk pid product s = Some (s\<lparr>api_cache := c, api_jobs := api_jobs s @ jobs\<rparr>) \<and> cinv c \<and>
    (\<forall>ok. cached_ok (ca_json ca) ok (api_cache s) \<longrightarrow> ok pid product (clk 0 + writeThroughTTL) \<longrightarrow> cached_ok (ca_json ca) ok c)"
proof -
  let ?b = "case json_Marshal (ca_json ca) product of None \<Rightarrow> [] | Some b \<Rightarrow> b" and ?key = "cacheKeyPrefix @ pid"
  have b: "p = product" if "json_Unmarshal (ca_json ca) ?b = Some p" for p
    using that assms(3) by (auto simp: json_ok_def split: option.splits)
  obtain err c bs where c: "strategy_OnWrite P (ca_strategy ca) clk ?key ?b (api_cache s) = Some (err, c, bs)" "cinv c"
    "cache_view c ?key = cache_view (api_cache s) ?key \<or> cache_view c ?key = Some (?b, clk 0 + writeThroughTTL)"
    "\<forall>k. k \<noteq> ?key \<longrightarrow> cache_view c k = cache_view (api_cache s) k \<or> cache_view c k = None"
    using strategy_OnWrite_ok [OF assms(2)] by blast
  have "cached_ok (ca_json ca) ok c"
    if ok: "cached_ok (ca_json ca) ok (api_cache s)" "ok pid product (clk 0 + writeThroughTTL)" for ok
    using c(3)
  proof
    assume "cache_view c ?key = cache_view (api_cache s) ?key"
    then have "cache_view c k = cache_view (api_cache s) k \<or> cache_view c k = None" for k
      using c(4) by (cases "k = ?key") auto
    then show ?thesis by (rule cached_ok_shrunk [OF ok(1)])
  next
    assume "cache_view c ?key = Some (?b, clk 0 + writeThroughTTL)"
    then show ?thesis
      using ok c(4) b by (intro cached_ok_written [of _ pid ok "api_cache s" c]) (auto intro: cached_ok_mono)
  qed
  with c(1,2) assms(1) show ?thesis by (auto simp: update_invalidate_def)
qed

text \<open>With write-through the entry of the product written is replaced, whatever it held.\<close>

lemma update_invalidate_write_through:
  assumes "ca_policy ca = P" "cinv (api_cache s)" "json_ok (ca_json ca)" "ca_strategy ca = StrategyWriteThrough"
    and "cached_ok (ca_json ca) (\<lambda>pid' p e. pid' \<noteq> pid \<longrightarrow> ok pid' p e) (api_cache s)" "\<And>e. ok pid product e"
  shows "\<exists>c. update_invalidate ca clk pid product s = Some (s\<lparr>api_cache := c\<rparr>) \<and> cinv c \<and> cached_ok (ca_json ca) ok c"
proof -
  let ?b = "case json_Marshal (ca_json ca) product of None \<Rightarrow> [] | Some b \<Rightarrow> b" and ?key = "cacheKeyPrefix @ pid"
  have b: "p = product" if "json_Unmarshal (ca_json ca) ?b = Some p" for p
    using that assms(3) by (auto simp: json_ok_def split: option.splits)
  obtain c where c: "WriteThrough_OnWrite P clk ?key ?b (api_cache s) = Some (None, c, [])" "cinv c"
    "cache_view c ?key = Some (?b, clk 0 + writeThroughTTL)"
    "\<forall>k. k \<noteq> ?key \<longrightarrow> cache_view c k = cache_view (api_cache s) k \<or> cache_view c k = None"
    using WriteThrough_correct [OF assms(2)] by blast
  have "cached_ok (ca_json ca) ok c"
    using c(4) b assms(6) by (intro cached_ok_written [OF assms(5) c(3)]) auto
  with c(1,2) assms(1,4) show ?thesis by (auto simp: update_invalidate_def strategy_OnWrite_def)
qed

lemma run_job_ok:
  fixes js :: "'f json"
  assumes "cinv (api_cache s)"
  shows "\<exists>s'. run_job P i s = Some s' \<and> cinv (api_cache s') \<and> api_db s' = api_db s \<and>
    (\<forall>ok. cached_ok js ok (api_cache s) \<longrightarrow> cached_ok js ok (api_cache s'))"
proof (cases "i < length (api_jobs s)")
  case True
  obtain c where c: "cache_Delete P (bd_key (api_jobs s ! i)) (api_cache s) = Some c" "cinv c"
    "cache_view c = (cache_view (api_cache s))(bd_key (api_jobs s ! i) := None)"
    using Delete_correct [OF assms] by blast
  then have "cached_ok js ok c" if "cached_ok js ok (api_cache s)" for ok
    by (intro cached_ok_shrunk [OF that]) auto
  with c(1,2) True show ?thesis by (simp add: run_job_def run_background_def)
qed (use assms in \<open>simp add: run_job_def\<close>)

text \<open>A read: what it answers and what it leaves in the cache.\<close>

lemma ca_GetProduct_ok:
  assumes "ca_policy ca = P" "cinv (api_cache s)" "mono clk" "json_ok (ca_json ca)" "pg_ok (ca_pg ca) tab"
  shows "\<exists>r s'. ca_GetProduct ca clk pid s = Some (r, s') \<and> cinv (api_cache s') \<and> tab (api_db s') = tab (api_db s) \<and>
    (\<forall>ok. cached_ok (ca_json ca) ok (api_cache s) \<longrightarrow>
       (\<forall>q. tab (api_db s) pid = Some q \<longrightarrow> ok pid (dbToAPIProduct q) (clk 3 + defaultProductTTL)) \<longrightarrow>
       cached_ok (ca_json ca) ok (api_cache s')) \<and>
    (case r of
       Inl ProductNotFound \<Rightarrow> tab (api_db s) pid = None
     | Inl (DbUnavailable _) \<Rightarrow> True
     | Inr (p, status) \<Rightarrow>
         status = ''HIT'' \<and> (\<exists>v e. cache_view (api_cache s) (cacheKeyPrefix @ pid) = Some (v, e) \<and>
            json_Unmarshal (ca_json ca) v = Some p \<and> \<not> expired_at (clk 0) e) \<or>
         status = ''MISS'' \<and> (\<exists>q. tab (api_db s) pid = Some q \<and> p = dbToAPIProduct q))"
proof -
  obtain r c where c: "get_cached ca clk pid s = Some (r, s\<lparr>api_cache := c\<rparr>)" "cinv c"
    "\<forall>k. cache_view c k = cache_view (api_cache s) k \<or> cache_view c k = None"
    "\<forall>p. r = Some p \<longrightarrow> (\<exists>v e. cache_view (api_cache s) (cacheKeyPrefix @ pid) = Some (v, e) \<and>
       json_Unmarshal (ca_json ca) v = Some p \<and> \<not> expired_at (clk 0) e)"
    using get_cached_ok [OF assms(1-3)] by blast
  have kept: "\<forall>ok. cached_ok (ca_json ca) ok (api_cache s) \<longrightarrow> cached_ok (ca_json ca) ok c"
    using cached_ok_shrunk [OF _ spec [OF c(3)]] by blast
  show ?thesis
  proof (cases r)
    case (Some p)
    with c(1) have "ca_GetProduct ca clk pid s = Some (Inr (p, ''HIT''), s\<lparr>api_cache := c\<rparr>)" by (simp add: ca_GetProduct_def)
    moreover from Some c(4) obtain v e where "cache_view (api_cache s) (cacheKeyPrefix @ pid) = Some (v, e)"
      "json_Unmarshal (ca_json ca) v = Some p" "\<not> expired_at (clk 0) e" by blast
    ultimately show ?thesis
      using c(2) kept by (intro exI [of _ "Inr (p, ''HIT'')"] exI [of _ "s\<lparr>api_cache := c\<rparr>"] conjI) simp_all
  next
    case None
    let ?s = "s\<lparr>api_cache := c\<rparr>"
    obtain x d where x: "db_GetProduct (ca_pg ca) pid (api_db s) = (x, d)" by fastforce
    note d = db_GetProduct_ok [OF assms(5) x]
    show ?thesis
    proof (cases x)
      case (Inl e)
      let ?e = "if e = ErrNotFound then ProductNotFound else DbUnavailable e"
      have "get_fetch ca pid ?s = (Inl ?e, ?s\<lparr>api_db := d\<rparr>)"
        using x Inl by (cases e) (simp_all add: get_fetch_def)
      with c(1) None have "ca_GetProduct ca clk pid s = Some (Inl ?e, ?s\<lparr>api_db := d\<rparr>)"
        by (simp add: ca_GetProduct_def)
      moreover have "case ?e of ProductNotFound \<Rightarrow> tab (api_db s) pid = None | DbUnavailable _ \<Rightarrow> True"
        using d(3) Inl by simp
      ultimately show ?thesis
        using c(2) d(1) kept by (intro exI [of _ "Inl ?e"] exI [of _ "?s\<lparr>api_db := d\<rparr>"] conjI) simp_all
    next
      case (Inr q)
      let ?p = "dbToAPIProduct q" and ?s2 = "?s\<lparr>api_db := d\<rparr>"
      have q: "tab (api_db s) pid = Some q" using d(2) Inr by simp
      from c(2) have "cinv (api_cache ?s2)" by simp
      from get_populate_ok [OF assms(1) this assms(4), of "later 3 clk" pid ?p] obtain c' where
        c': "get_populate ca (later 3 clk) pid ?p ?s2 = Some (?s2\<lparr>api_cache := c'\<rparr>)" "cinv c'"
        "\<forall>ok. cached_ok (ca_json ca) ok c \<longrightarrow> ok pid ?p (clk 3 + defaultProductTTL) \<longrightarrow> cached_ok (ca_json ca) ok c'"
        by auto
      have "get_fetch ca pid ?s = (Inr q, ?s2)" using x Inr by (simp add: get_fetch_def)
      with c(1) None c'(1) have "ca_GetProduct ca clk pid s = Some (Inr (?p, ''MISS''), ?s2\<lparr>api_cache := c'\<rparr>)"
        by (simp add: ca_GetProduct_def)
      with c'(2,3) d(1) q kept show ?thesis
        by (intro exI [of _ "Inr (?p, ''MISS'')"] exI [of _ "?s2\<lparr>api_cache := c'\<rparr>"] conjI) simp_all
    qed
  qed
qed

text \<open>A write with any strategy.\<close>

lemma update_writeD:
  assumes "pg_ok (ca_pg ca) tab" "update_write ca pid req s = (r, s')"
  shows "\<exists>d. s' = s\<lparr>api_db := d\<rparr> \<and> (case r of Inr q \<Rightarrow> tab d = (tab (api_db s))(pid \<mapsto> q) | Inl _ \<Rightarrow> tab d = tab (api_db s))"
proof -
  let ?req = "\<lparr>du_Name = ur_Name req, du_Description = ur_Description req, du_PriceUSD = ur_PriceUSD req,
                   du_Category = ur_Category req\<rparr>"
  obtain x d where x: "db_UpdateProduct (ca_pg ca) pid ?req (api_db s) = (x, d)" by fastforce
  note upd = db_UpdateProduct_ok [OF assms(1) x]
  show ?thesis
  proof (cases x)
    case (Inl e)
    with x upd assms(2) show ?thesis by (cases e) (auto simp: update_write_def)
  next
    case (Inr q)
    with x upd assms(2) show ?thesis by (auto simp: update_write_def)
  qed
qed

lemma ca_UpdateProduct_ok:
  assumes "ca_policy ca = P" "cinv (api_cache s)" "json_ok (ca_json ca)" "pg_ok (ca_pg ca) tab"
  shows "\<exists>r s'. ca_UpdateProduct ca clk pid req s = Some (r, s') \<and> cinv (api_cache s') \<and>
    (\<forall>ok. cached_ok (ca_json ca) ok (api_cache s) \<longrightarrow>
       (\<forall>q. tab (api_db s') pid = Some q \<longrightarrow> ok pid (dbToAPIProduct q) (clk 0 + writeThroughTTL)) \<longrightarrow>
       cached_ok (ca_json ca) ok (api_cache s'))"
proof -
  obtain x s1 where x: "update_write ca pid req s = (x, s1)" by fastforce
  from update_writeD [OF assms(4) x] obtain d where d: "s1 = s\<lparr>api_db := d\<rparr>"
    "case x of Inr q \<Rightarrow> tab d = (tab (api_db s))(pid \<mapsto> q) | Inl _ \<Rightarrow> tab d = tab (api_db s)" by blast
  show ?thesis
  proof (cases x)
    case (Inl e)
    with x d assms(2) show ?thesis by (simp add: ca_UpdateProduct_def)
  next
    case (Inr q)
    from d(1) assms(2) have "cinv (api_cache s1)" by simp
    from update_invalidate_ok [OF assms(1) this assms(3), of clk pid "dbToAPIProduct q"] obtain c jobs where
      c: "update_invalidate ca clk pid (dbToAPIProduct q) s1 = Some (s1\<lparr>api_cache := c, api_jobs := api_jobs s1 @ jobs\<rparr>)" "cinv c"
      "\<forall>ok. cached_ok (ca_json ca) ok (api_cache s1) \<longrightarrow> ok pid (dbToAPIProduct q) (clk 0 + writeThroughTTL) \<longrightarrow>
         cached_ok (ca_json ca) ok c"
      by blast
    from Inr x c(1) have "ca_UpdateProduct ca clk pid req s =
        Some (Inr (dbToAPIProduct q), s1\<lparr>api_cache := c, api_jobs := api_jobs s1 @ jobs\<rparr>)"
      by (simp add: ca_UpdateProduct_def)
    moreover have "tab d pid = Some q" using d(2) Inr by simp
    ultimately show ?thesis using c(2,3) d(1) by (simp del: not_None_eq)
  qed
qed

text \<open>What the cache holds is current.\<close>

definition coherent :: "('p, 's, 'f) CacheAside \<Rightarrow> ('s \<Rightarrow> string \<rightharpoonup> 'f dbProduct) \<Rightarrow> ('p, 's) apiState \<Rightarrow> bool" where
  "coherent ca tab s \<longleftrightarrow> cinv (api_cache s) \<and>
     cached_ok (ca_json ca) (\<lambda>pid p e. \<exists>q. tab (api_db s) pid = Some q \<and> p = dbToAPIProduct q) (api_cache s)"

lemma ca_UpdateProduct_coherent:
  assumes "ca_policy ca = P" "ca_strategy ca = StrategyWriteThrough" "json_ok (ca_json ca)" "pg_ok (ca_pg ca) tab"
    "coherent ca tab s"
  shows "\<exists>r s'. ca_UpdateProduct ca clk pid req s = Some (r, s') \<and> coherent ca tab s'"
proof -
  obtain x s1 where x: "update_write ca pid req s = (x, s1)" by fastforce
  from update_writeD [OF assms(4) x] obtain d where d: "s1 = s\<lparr>api_db := d\<rparr>"
    "case x of Inr q \<Rightarrow> tab d = (tab (api_db s))(pid \<mapsto> q) | Inl _ \<Rightarrow> tab d = tab (api_db s)" by blast
  show ?thesis
  proof (cases x)
    case (Inl e)
    with x d assms(5) show ?thesis by (simp add: ca_UpdateProduct_def coherent_def)
  next
    case (Inr q)
    let ?ok = "\<lambda>pid' p (e :: time). \<exists>q'. tab d pid' = Some q' \<and> p = dbToAPIProduct q'"
    have tab: "tab d = (tab (api_db s))(pid \<mapsto> q)" using d(2) Inr by simp
    have "cinv (api_cache s1)" using assms(5) d(1) by (simp add: coherent_def)
    moreover have "cached_ok (ca_json ca) (\<lambda>pid' p e. pid' \<noteq> pid \<longrightarrow> ?ok pid' p e) (api_cache s1)"
      using assms(5) d(1) tab unfolding coherent_def by (auto elim: cached_ok_mono)
    moreover have "?ok pid (dbToAPIProduct q) e" for e using tab by simp
    ultimately obtain c where "update_invalidate ca clk pid (dbToAPIProduct q) s1 = Some (s1\<lparr>api_cache := c\<rparr>)" "cinv c"
      "cached_ok (ca_json ca) ?ok c"
      using update_invalidate_write_through [OF assms(1) _ assms(3,2), of s1 pid ?ok "dbToAPIProduct q" clk] by blast
    with Inr x d(1) show ?thesis by (simp add: ca_UpdateProduct_def coherent_def)
  qed
qed

lemma api_step_coherent:
  assumes "ca_policy ca = P" "ca_strategy ca = StrategyWriteThrough" "json_ok (ca_json ca)" "pg_ok (ca_pg ca) tab"
    "coherent ca tab s" "request_clock_ok req"
  shows "\<exists>w s'. api_step ca req s = Some (w, s') \<and> coherent ca tab s'"
proof (cases req)
  case (ApiGet clk pid)
  then have "mono clk" using assms(6) by (simp add: request_clock_ok_def)
  from assms(5) have inv: "cinv (api_cache s)" by (simp add: coherent_def)
  from ca_GetProduct_ok [OF assms(1) inv \<open>mono clk\<close> assms(3,4), of pid] obtain r s' where
    s': "ca_GetProduct ca clk pid s = Some (r, s')" "cinv (api_cache s')" "tab (api_db s') = tab (api_db s)"
    "\<forall>ok. cached_ok (ca_json ca) ok (api_cache s) \<longrightarrow>
       (\<forall>q. tab (api_db s) pid = Some q \<longrightarrow> ok pid (dbToAPIProduct q) (clk 3 + defaultProductTTL)) \<longrightarrow>
       cached_ok (ca_json ca) ok (api_cache s')"
    by blast
  then have "coherent ca tab s'" using assms(5) by (simp add: coherent_def)
  with ApiGet s'(1) show ?thesis by (simp add: api_step_def h_GetProduct_def)
next
  case (ApiList query)
  obtain page sz where page: "list_params query = (page, sz)" by fastforce
  obtain ps tot err d where d: "db_ListProducts (ca_pg ca) page sz (api_db s) = ((ps, tot, err), d)"
    by (metis prod.exhaust)
  from assms(5) have "coherent ca tab (s\<lparr>api_db := d\<rparr>)"
    unfolding coherent_def by (simp add: db_ListProducts_ok [OF assms(4) d])
  with ApiList page d show ?thesis by (simp add: api_step_def h_ListProducts_def)
next
  case (ApiCreate decoded)
  have "coherent ca tab (s\<lparr>api_db := d\<rparr>)" if "db_CreateProduct (ca_pg ca) p (api_db s) = (r, d)" for p r d
  proof -
    have "cached_ok (ca_json ca) (\<lambda>pid p e. \<exists>q. tab d pid = Some q \<and> p = dbToAPIProduct q) (api_cache s)"
      using assms(5) unfolding coherent_def
      by (elim conjE cached_ok_mono exE) (use db_CreateProduct_ok [OF assms(4) that] in blast)
    with assms(5) show ?thesis by (simp add: coherent_def)
  qed
  then have "coherent ca tab (snd (h_CreateProduct ca decoded s))"
    using assms(5) by (simp add: h_CreateProduct_def split: sum.split prod.split)
  with ApiCreate show ?thesis by (cases "h_CreateProduct ca decoded s") (simp add: api_step_def)
next
  case (ApiPut clk pid decoded)
  show ?thesis
  proof (cases decoded)
    case (Inl err)
    with ApiPut assms(5) show ?thesis by (simp add: api_step_def h_UpdateProduct_def)
  next
    case (Inr upd)
    from ca_UpdateProduct_coherent [OF assms(1-5)] obtain r s' where
      "ca_UpdateProduct ca clk pid upd s = Some (r, s')" "coherent ca tab s'" by blast
    with ApiPut Inr show ?thesis by (simp add: api_step_def h_UpdateProduct_def)
  qed
next
  case (Background i)
  from run_job_ok [of s i "ca_json ca"] assms(5) obtain s' where "run_job P i s = Some s'" "cinv (api_cache s')"
    "api_db s' = api_db s" "\<forall>ok. cached_ok (ca_json ca) ok (api_cache s) \<longrightarrow> cached_ok (ca_json ca) ok (api_cache s')"
    unfolding coherent_def by blast
  with Background assms(1,5) show ?thesis by (simp add: api_step_def coherent_def)
qed

lemma api_run_coherent:
  assumes "ca_policy ca = P" "ca_strategy ca = StrategyWriteThrough" "json_ok (ca_json ca)" "pg_ok (ca_pg ca) tab"
    "coherent ca tab s" "list_all request_clock_ok reqs"
  shows "\<exists>s'. api_run ca reqs s = Some s' \<and> coherent ca tab s'"
  using assms(5,6)
proof (induction reqs arbitrary: s)
  case (Cons req reqs)
  then have "request_clock_ok req" by simp
  from api_step_coherent [OF assms(1-4) Cons.prems(1) this] obtain w s1 where
    "api_step ca req s = Some (w, s1)" "coherent ca tab s1" by blast
  with Cons show ?case by simp
qed simp

end

text \<open>The response to a read: an error without a product, a hit or a miss.\<close>

definition response_ok :: "('s \<Rightarrow> string \<rightharpoonup> 'f dbProduct) \<Rightarrow> 'f json \<Rightarrow> time \<Rightarrow> string \<Rightarrow> ('p, 's) apiState \<Rightarrow> 'f responseWriter \<Rightarrow> bool" where
  "response_ok tab js now pid s w \<longleftrightarrow>
     (if rw_status w = 200 then \<exists>p. rw_body w = BodyProduct p \<and>
        (rw_header w xCacheHeader = Some ''HIT'' \<and> (\<exists>v e. cache_view (api_cache s) (cacheKeyPrefix @ pid) = Some (v, e) \<and>
            json_Unmarshal js v = Some p \<and> \<not> expired_at now e) \<or>
         rw_header w xCacheHeader = Some ''MISS'' \<and> (\<exists>q. tab (api_db s) pid = Some q \<and> p = dbToAPIProduct q))
      else rw_status w \<in> {404, 503} \<and> (rw_status w = 404 \<longrightarrow> tab (api_db s) pid = None) \<and>
        (\<exists>m. rw_body w = BodyError m) \<and> rw_header w xCacheHeader = None)"

lemma h_GetProduct_success:
  assumes "ca_GetProduct ca clk pid s = Some (Inr (p, status), s')"
  shows "\<exists>w. h_GetProduct ca clk pid s = Some (w, s') \<and> rw_status w = 200 \<and> rw_body w = BodyProduct p \<and>
    rw_header w xCacheHeader = Some status"
  using assms by (simp add: h_GetProduct_def writeJSON_def header_Set_def header_Get_def newWriter_def xCacheHeader_def)

lemma h_GetProduct_failure:
  assumes "ca_GetProduct ca clk pid s = Some (Inl e, s')"
  shows "\<exists>w m. h_GetProduct ca clk pid s = Some (w, s') \<and> rw_status w = (case e of ProductNotFound \<Rightarrow> 404 | DbUnavailable _ \<Rightarrow> 503) \<and>
    rw_body w = BodyError m \<and> rw_header w xCacheHeader = None"
  using assms
  by (cases e) (simp_all add: h_GetProduct_def writeError_def writeJSON_def header_Set_def newWriter_def xCacheHeader_def)

context eviction_policy
begin

lemma h_GetProduct_ok:
  assumes "ca_policy ca = P" "cinv (api_cache s)" "mono clk" "json_ok (ca_json ca)" "pg_ok (ca_pg ca) tab"
  shows "\<exists>w s'. h_GetProduct ca clk pid s = Some (w, s') \<and> response_ok tab (ca_json ca) (clk 0) pid s w"
proof -
  obtain r s' where r: "ca_GetProduct ca clk pid s = Some (r, s')"
    "case r of Inl ProductNotFound \<Rightarrow> tab (api_db s) pid = None | Inl (DbUnavailable _) \<Rightarrow> True
     | Inr (p, status) \<Rightarrow>
         status = ''HIT'' \<and> (\<exists>v e. cache_view (api_cache s) (cacheKeyPrefix @ pid) = Some (v, e) \<and>
            json_Unmarshal (ca_json ca) v = Some p \<and> \<not> expired_at (clk 0) e) \<or>
         status = ''MISS'' \<and> (\<exists>q. tab (api_db s) pid = Some q \<and> p = dbToAPIProduct q)"
    using ca_GetProduct_ok [OF assms, of pid] by blast
  show ?thesis
  proof (cases r)
    case (Inl e)
    with r(1) obtain w m where w: "h_GetProduct ca clk pid s = Some (w, s')"
      "rw_status w = (case e of ProductNotFound \<Rightarrow> 404 | DbUnavailable _ \<Rightarrow> 503)" "rw_body w = BodyError m"
      "rw_header w xCacheHeader = None"
      using h_GetProduct_failure by blast
    then have "response_ok tab (ca_json ca) (clk 0) pid s w"
      using r(2) Inl by (cases e) (simp_all add: response_ok_def)
    with w(1) show ?thesis by blast
  next
    case (Inr x)
    obtain p status where x: "x = (p, status)" by fastforce
    with r(1) Inr obtain w where w: "h_GetProduct ca clk pid s = Some (w, s')" "rw_status w = 200" "rw_body w = BodyProduct p"
      "rw_header w xCacheHeader = Some status"
      using h_GetProduct_success by blast
    then have "response_ok tab (ca_json ca) (clk 0) pid s w"
      using r(2) Inr x by (simp add: response_ok_def)
    with w(1) show ?thesis by blast
  qed
qed

end

section \<open>Freshness\<close>

text \<open>
  A run with the times its requests end at: the log holds, for each request so far, that time and the state of the
  database then. Requests do not overlap.
\<close>

definition during :: "'f apiRequest \<Rightarrow> time \<Rightarrow> time \<Rightarrow> bool" where
  "during req t t' \<longleftrightarrow> t \<le> t' \<and> (case req of
     ApiGet clk _ \<Rightarrow> mono clk \<and> t \<le> clk 0 \<and> clk 3 \<le> t'
   | ApiPut clk _ _ \<Rightarrow> mono clk \<and> t \<le> clk 0 \<and> clk 0 \<le> t'
   | _ \<Rightarrow> True)"

inductive api_reach :: "('p, 's, 'f) CacheAside \<Rightarrow> time \<Rightarrow> ('p, 's) apiState \<Rightarrow> (time \<times> 's) list \<Rightarrow> ('p, 's) apiState \<Rightarrow> bool"
  for ca t0 s0 where
  start: "api_reach ca t0 s0 [(t0, api_db s0)] s0"
| request: "api_reach ca t0 s0 log s \<Longrightarrow> during req (fst (hd log)) t \<Longrightarrow> api_step ca req s = Some (w, s') \<Longrightarrow>
    api_reach ca t0 s0 ((t, api_db s') # log) s'"

definition fresh_in :: "('s \<Rightarrow> string \<rightharpoonup> 'f dbProduct) \<Rightarrow> (time \<times> 's) list \<Rightarrow> string \<Rightarrow> 'f Product \<Rightarrow> time \<Rightarrow> bool" where
  "fresh_in tab log pid p e \<longleftrightarrow> 0 < e \<and>
     (\<exists>(t, d)\<in>set log. e \<le> t + defaultProductTTL \<and> (\<exists>q. tab d pid = Some q \<and> p = dbToAPIProduct q))"

lemma fresh_in_Cons: "fresh_in tab log pid p e \<Longrightarrow> fresh_in tab (x # log) pid p e"
  by (auto simp: fresh_in_def)

lemma fresh_in_now:
  "0 \<le> u \<Longrightarrow> u \<le> t \<Longrightarrow> tab d pid = Some q \<Longrightarrow>
   fresh_in tab ((t, d) # log) pid (dbToAPIProduct q) (u + defaultProductTTL)"
  by (auto simp: fresh_in_def defaultProductTTL_def)

context eviction_policy
begin

lemma api_step_fresh:
  assumes "ca_policy ca = P" "json_ok (ca_json ca)" "pg_ok (ca_pg ca) tab" "cinv (api_cache s)"
    "cached_ok (ca_json ca) (fresh_in tab log) (api_cache s)" "during req t0 t" "0 \<le> t0"
  shows "\<exists>w s'. api_step ca req s = Some (w, s') \<and> cinv (api_cache s') \<and>
    cached_ok (ca_json ca) (fresh_in tab ((t, api_db s') # log)) (api_cache s')"
proof (cases req)
  case (ApiGet clk pid)
  then have clk: "mono clk" "t0 \<le> clk 0" "clk 3 \<le> t" using assms(6) by (simp_all add: during_def)
  from ca_GetProduct_ok [OF assms(1,4) clk(1) assms(2,3), of pid] obtain r s' where
    s': "ca_GetProduct ca clk pid s = Some (r, s')" "cinv (api_cache s')" "tab (api_db s') = tab (api_db s)"
    "\<forall>ok. cached_ok (ca_json ca) ok (api_cache s) \<longrightarrow>
       (\<forall>q. tab (api_db s) pid = Some q \<longrightarrow> ok pid (dbToAPIProduct q) (clk 3 + defaultProductTTL)) \<longrightarrow>
       cached_ok (ca_json ca) ok (api_cache s')"
    by blast
  have "0 \<le> clk 3" using mono_clockD [OF clk(1), of 0 3] clk(2) assms(7) by simp
  then have "fresh_in tab ((t, api_db s') # log) pid (dbToAPIProduct q) (clk 3 + defaultProductTTL)"
    if "tab (api_db s) pid = Some q" for q
    using that clk(3) s'(3) by (intro fresh_in_now) simp_all
  moreover have "cached_ok (ca_json ca) (fresh_in tab ((t, api_db s') # log)) (api_cache s)"
    by (rule cached_ok_mono [OF assms(5)]) (rule fresh_in_Cons)
  ultimately have "cached_ok (ca_json ca) (fresh_in tab ((t, api_db s') # log)) (api_cache s')" using s'(4) by blast
  with ApiGet s'(1,2) show ?thesis by (simp add: api_step_def h_GetProduct_def)
next
  case (ApiPut clk pid decoded)
  then have clk: "t0 \<le> clk 0" "clk 0 \<le> t" using assms(6) by (simp_all add: during_def)
  have kept: "cached_ok (ca_json ca) (fresh_in tab ((t, d) # log)) (api_cache s)" for d
    by (rule cached_ok_mono [OF assms(5)]) (rule fresh_in_Cons)
  show ?thesis
  proof (cases decoded)
    case (Inl err)
    with ApiPut assms(4) kept show ?thesis by (simp add: api_step_def h_UpdateProduct_def)
  next
    case (Inr upd)
    from ca_UpdateProduct_ok [OF assms(1,4,2,3), of clk pid upd] obtain r s' where
      s': "ca_UpdateProduct ca clk pid upd s = Some (r, s')" "cinv (api_cache s')"
      "\<forall>ok. cached_ok (ca_json ca) ok (api_cache s) \<longrightarrow>
         (\<forall>q. tab (api_db s') pid = Some q \<longrightarrow> ok pid (dbToAPIProduct q) (clk 0 + writeThroughTTL)) \<longrightarrow>
         cached_ok (ca_json ca) ok (api_cache s')"
      by blast
    have "fresh_in tab ((t, api_db s') # log) pid (dbToAPIProduct q) (clk 0 + writeThroughTTL)"
      if "tab (api_db s') pid = Some q" for q
      using fresh_in_now [of "clk 0" t tab "api_db s'" pid q log] that clk assms(7)
      by (simp add: writeThroughTTL_def defaultProductTTL_def)
    then have "cached_ok (ca_json ca) (fresh_in tab ((t, api_db s') # log)) (api_cache s')" using s'(3) kept by blast
    with ApiPut Inr s'(1,2) show ?thesis by (simp add: api_step_def h_UpdateProduct_def)
  qed
next
  case (Background i)
  from run_job_ok [OF assms(4), of i "ca_json ca"] obtain s' where s': "run_job P i s = Some s'" "cinv (api_cache s')"
    "\<forall>ok. cached_ok (ca_json ca) ok (api_cache s) \<longrightarrow> cached_ok (ca_json ca) ok (api_cache s')"
    by blast
  have "cached_ok (ca_json ca) (fresh_in tab ((t, api_db s') # log)) (api_cache s')"
    by (rule cached_ok_mono [OF mp [OF spec [OF s'(3)] assms(5)]]) (rule fresh_in_Cons)
  with Background assms(1) s'(1,2) show ?thesis by (simp add: api_step_def)
next
  case (ApiList query)
  have "api_cache (snd (h_ListProducts ca query s)) = api_cache s"
    by (simp add: h_ListProducts_def split: prod.split)
  with ApiList assms(4) cached_ok_mono [OF assms(5) fresh_in_Cons] show ?thesis
    by (cases "h_ListProducts ca query s") (simp add: api_step_def)
next
  case (ApiCreate decoded)
  have "api_cache (snd (h_CreateProduct ca decoded s)) = api_cache s"
    by (simp add: h_CreateProduct_def split: sum.split prod.split)
  with ApiCreate assms(4) cached_ok_mono [OF assms(5) fresh_in_Cons] show ?thesis
    by (cases "h_CreateProduct ca decoded s") (simp add: api_step_def)
qed

lemma api_reach_fresh:
  assumes "api_reach ca t0 s0 log s" "ca_policy ca = P" "json_ok (ca_json ca)" "pg_ok (ca_pg ca) tab"
    "cinv (api_cache s0)" "cached_ok (ca_json ca) (\<lambda>_ _ _. False) (api_cache s0)" "0 \<le> t0"
  shows "cinv (api_cache s) \<and> cached_ok (ca_json ca) (fresh_in tab log) (api_cache s) \<and> 0 \<le> fst (hd log)"
  using assms(1)
proof induction
  case start
  have "cached_ok (ca_json ca) (fresh_in tab [(t0, api_db s0)]) (api_cache s0)"
    by (rule cached_ok_mono [OF assms(6)]) simp
  with assms(5,7) show ?case by simp
next
  case (request log s req t w s')
  from api_step_fresh [OF assms(2-4), of s log req "fst (hd log)" t] request obtain w1 s1 where
    "api_step ca req s = Some (w1, s1)" "cinv (api_cache s1)"
    "cached_ok (ca_json ca) (fresh_in tab ((t, api_db s1) # log)) (api_cache s1)" by blast
  with request show ?case by (simp add: during_def)
qed

end

section \<open>A database and a codec for examples\<close>

text \<open>A table in memory that answers the select and update statements; prices are integers.\<close>

definition set_list :: "string \<Rightarrow> string" where
  "set_list q = drop 6 (split_on CHR 0x0A q ! 2)"

definition memory_QueryRow :: "string \<Rightarrow> int pgArg list \<Rightarrow> (string \<rightharpoonup> int dbProduct) \<Rightarrow> int rowResult \<times> (string \<rightharpoonup> int dbProduct)" where
  "memory_QueryRow q args s =
     (case rev args of
        PgText pid # _ \<Rightarrow>
          if q = insertProductSQL then (RowError ''read-only'', s)
          else (case s pid of
             None \<Rightarrow> (NoRows, s)
           | Some p \<Rightarrow>
               if q = selectProductSQL then (Row p, s)
               else (case assign_all 0 args (split_on CHR '','' (set_list q)) p of
                  None \<Rightarrow> (RowError ''syntax error'', s)
                | Some p' \<Rightarrow> (Row p', s(pid \<mapsto> p'))))
      | _ \<Rightarrow> (RowError ''no id'', s))"

definition memory_pg :: "(string \<rightharpoonup> int dbProduct, int) pgPool" where
  "memory_pg = \<lparr>pg_QueryRow = memory_QueryRow, pg_Count = (\<lambda>_ s. (Inl ''unsupported'', s)),
     pg_Query = (\<lambda>_ _ s. (Inl ''unsupported'', s))\<rparr>"

lemma rev_update_args: "\<exists>as. rev (update_args pid req) = PgText pid # as"
  by (cases "set_clauses req") (simp add: update_args_def)

lemma statements_differ:
  "updateProductSQL req \<noteq> selectProductSQL" "updateProductSQL req \<noteq> insertProductSQL" "selectProductSQL \<noteq> insertProductSQL"
  by (simp_all add: updateProductSQL_def selectProductSQL_def insertProductSQL_def sql_text_def split: prod.split)

lemma memory_pg_ok: "pg_ok memory_pg (\<lambda>s. s)"
proof -
  have "case r of Row p \<Rightarrow> s' = s(pid \<mapsto> p) | _ \<Rightarrow> s' = s"
    if q: "memory_QueryRow (updateProductSQL req) (update_args pid req) s = (r, s')" for pid req s r s'
  proof -
    obtain as where "rev (update_args pid req) = PgText pid # as" using rev_update_args by blast
    with q show ?thesis by (auto simp: memory_QueryRow_def statements_differ split: option.splits)
  qed
  moreover have "s' = s" if "memory_QueryRow insertProductSQL args s = (r, s')" for args s r s'
    using that by (auto simp: memory_QueryRow_def split: list.splits pgArg.splits)
  moreover have "s' = s \<and> (case r of Row p \<Rightarrow> s pid = Some p | NoRows \<Rightarrow> s pid = None | RowError _ \<Rightarrow> True)"
    if "memory_QueryRow selectProductSQL [PgText pid] s = (r, s')" for pid s r s'
    using that by (auto simp: memory_QueryRow_def statements_differ split: option.splits)
  ultimately show ?thesis by (fastforce simp: pg_ok_def memory_pg_def)
qed

definition lamp :: "int dbProduct" where
  "lamp = \<lparr>dp_ID = ''p1'', dp_Name = ''lamp'', dp_Description = '''', dp_PriceUSD = 20, dp_Category = '''',
     dp_CreatedAt = 0, dp_UpdatedAt = 0\<rparr>"

definition cheap_lamp :: "int dbProduct" where
  "cheap_lamp = lamp\<lparr>dp_PriceUSD := 10\<rparr>"

definition lamp_json :: "int json" where
  "lamp_json = \<lparr>
     json_Marshal = (\<lambda>p. if p = dbToAPIProduct lamp then Some ''lamp''
        else if p = dbToAPIProduct cheap_lamp then Some ''cheap'' else None),
     json_Unmarshal = (\<lambda>b. if b = ''lamp'' then Some (dbToAPIProduct lamp)
        else if b = ''cheap'' then Some (dbToAPIProduct cheap_lamp) else None)\<rparr>"

lemma lamp_json_ok: "json_ok lamp_json"
  by (simp add: json_ok_def lamp_json_def)

definition lamp_api :: "InvalidationStrategy \<Rightarrow> (evictionPolicy, string \<rightharpoonup> int dbProduct, int) CacheAside" where
  "lamp_api strategy = \<lparr>ca_policy = policies, ca_pg = memory_pg, ca_json = lamp_json, ca_strategy = strategy\<rparr>"

definition lamp_start :: "(evictionPolicy, string \<rightharpoonup> int dbProduct) apiState" where
  "lamp_start = api_start 10 (buildEvictionPolicy (\<lambda>_. 0) ''lru'') [''p1'' \<mapsto> lamp]"

definition lower_price :: "int ProductUpdateRequest" where
  "lower_price = \<lparr>ur_Name = None, ur_Description = None, ur_PriceUSD = Some 10, ur_Category = None\<rparr>"

section \<open>Properties\<close>



text \<open>C9. Whatever the strategy, the cache serves nothing older than five minutes: a product that a read returns as
  a cache hit was the row of the database at the end of some request, or at the start, no more
  than five minutes before the read.\<close>

theorem cached_product_is_recent:
  assumes "ca_policy ca = policies" "json_ok (ca_json ca)" "pg_ok (ca_pg ca) tab" "0 \<le> t0"
    and "api_reach ca t0 (api_start cap (buildEvictionPolicy draws name) d0) log s" "mono clk" "fst (hd log) \<le> clk 0"
  shows "\<exists>w s'. h_GetProduct ca clk pid s = Some (w, s') \<and> rw_status w \<in> {200, 404, 503} \<and>
    (rw_header w xCacheHeader = Some ''HIT'' \<longrightarrow> (\<exists>t d q. (t, d) \<in> set log \<and> clk 0 - 5 * 60 * Second \<le> t \<and>
       tab d pid = Some q \<and> rw_body w = BodyProduct (dbToAPIProduct q)))"
proof -
  let ?s0 = "api_start cap (buildEvictionPolicy draws name) d0"
  have "any.cinv (api_cache ?s0)" "cached_ok (ca_json ca) (\<lambda>_ _ _. False) (api_cache ?s0)"
    using cache_inv_built cached_ok_New by (simp_all add: api_start_def)
  from any.api_reach_fresh [OF assms(5,1-3) this assms(4)] have
    inv: "any.cinv (api_cache s)" and fresh: "cached_ok (ca_json ca) (fresh_in tab log) (api_cache s)" by simp_all
  from any.h_GetProduct_ok [OF assms(1) inv assms(6,2,3), of pid] obtain w s' where w: "h_GetProduct ca clk pid s = Some (w, s')"
    "response_ok tab (ca_json ca) (clk 0) pid s w"
    by blast
  have "\<exists>t d q. (t, d) \<in> set log \<and> clk 0 - 5 * 60 * Second \<le> t \<and> tab d pid = Some q \<and> rw_body w = BodyProduct (dbToAPIProduct q)"
    if "rw_header w xCacheHeader = Some ''HIT''"
  proof -
    from w(2) that obtain p v e where p: "rw_body w = BodyProduct p"
      "cache_view (api_cache s) (cacheKeyPrefix @ pid) = Some (v, e)" "json_Unmarshal (ca_json ca) v = Some p" "\<not> expired_at (clk 0) e"
      by (auto simp: response_ok_def split: if_splits)
    from cached_okD [OF fresh p(2,3)] obtain t d q where "0 < e" "(t, d) \<in> set log" "e \<le> t + defaultProductTTL"
      "tab d pid = Some q" "p = dbToAPIProduct q"
      by (auto simp: fresh_in_def)
    with p(1,4) show ?thesis
      by (intro exI [of _ t] exI [of _ d] exI [of _ q]) (simp add: expired_at_def defaultProductTTL_def)
  qed
  moreover have "rw_status w \<in> {200, 404, 503}" using w(2) by (auto simp: response_ok_def split: if_splits)
  ultimately show ?thesis using w(1) by blast
qed

theorem cached_product_is_recent_witness:
  "\<exists>log s w s'. api_reach (lamp_api StrategyTTL) 1 lamp_start log s \<and> api_db s ''p1'' = Some cheap_lamp \<and>
    h_GetProduct (lamp_api StrategyTTL) (\<lambda>_. 9) ''p1'' s = Some (w, s') \<and> rw_header w xCacheHeader = Some ''HIT'' \<and>
    (\<exists>t d q. (t, d) \<in> set log \<and> 9 - 5 * 60 * Second \<le> t \<and> d ''p1'' = Some q \<and> rw_body w = BodyProduct (dbToAPIProduct q))"
proof -
  let ?ca = "lamp_api StrategyTTL" and ?get = "ApiGet (\<lambda>_. 2) ''p1''" and ?put = "ApiPut (\<lambda>_. 6) ''p1'' (Inr lower_price)"
  have "(do { (w1, s1) \<leftarrow> api_step ?ca ?get lamp_start; (w2, s2) \<leftarrow> api_step ?ca ?put s1;
         (w3, s3) \<leftarrow> h_GetProduct ?ca (\<lambda>_. 9) ''p1'' s2; Some (rw_header w3 xCacheHeader, api_db s2 ''p1'') }) =
      Some (Some ''HIT'', Some cheap_lamp)"
    by code_simp
  then obtain w1 s1 w2 s2 w3 s3 where steps: "api_step ?ca ?get lamp_start = Some (w1, s1)" "api_step ?ca ?put s1 = Some (w2, s2)"
    "h_GetProduct ?ca (\<lambda>_. 9) ''p1'' s2 = Some (w3, s3)" "rw_header w3 xCacheHeader = Some ''HIT''" "api_db s2 ''p1'' = Some cheap_lamp"
    by (auto split: bind_splits)
  have "api_reach ?ca 1 lamp_start [(6, api_db s2), (5, api_db s1), (1, api_db lamp_start)] s2"
    by (rule api_reach.request [OF api_reach.request [OF api_reach.start _ steps(1)] _ steps(2)])
      (simp_all add: during_def mono_def)
  then obtain log where log: "api_reach ?ca 1 lamp_start log s2" "fst (hd log) \<le> 9" by force
  from cached_product_is_recent [where tab = "\<lambda>s. s" and clk = "\<lambda>_. 9" and pid = "''p1''", OF _ _ _ _ log(1) [unfolded lamp_start_def]] log(2)
  have "\<exists>w s'. h_GetProduct ?ca (\<lambda>_. 9) ''p1'' s2 = Some (w, s') \<and> rw_status w \<in> {200, 404, 503} \<and>
    (rw_header w xCacheHeader = Some ''HIT'' \<longrightarrow> (\<exists>t d q. (t, d) \<in> set log \<and> 9 - 5 * 60 * Second \<le> t \<and>
       d ''p1'' = Some q \<and> rw_body w = BodyProduct (dbToAPIProduct q)))"
    by (simp add: lamp_api_def lamp_json_ok memory_pg_ok mono_def)
  then have "\<exists>t d q. (t, d) \<in> set log \<and> 9 - 5 * 60 * Second \<le> t \<and> d ''p1'' = Some q \<and> rw_body w3 = BodyProduct (dbToAPIProduct q)"
    using steps(3,4) by auto
  with log(1) steps(3-5) show ?thesis by blast
qed


lemma queryInt_range: "in_int64 defaultVal \<Longrightarrow> in_int64 (queryInt query key defaultVal)"
  using Atoi_range by (auto simp: queryInt_def Let_def split: option.splits)

lemma list_params_range:
  assumes "list_params query = (page, pageSize)"
  shows "1 \<le> page" "page < 2 ^ 63" "1 \<le> pageSize" "pageSize \<le> 100"
proof -
  have "in_int64 (queryInt query ''page'' 1)" by (rule queryInt_range) (simp add: in_int64_def)
  with assms show "1 \<le> page" "page < 2 ^ 63" "1 \<le> pageSize" "pageSize \<le> 100"
    by (auto simp: list_params_def Let_def in_int64_def split: if_splits)
qed

text \<open>C34. Paging stays in bounds: whatever the query string, the page is at least 1 and the page size between 1 and
  100, and the offset sent to the database is the number of products on the pages before,
  exactly as long as that number fits in 64 bits.\<close>

theorem list_products_page_bounds:
  assumes "list_params query = (page, pageSize)"
  shows "1 \<le> page \<and> 1 \<le> pageSize \<and> pageSize \<le> 100 \<and>
    (list_offset page pageSize = (page - 1) * pageSize \<longleftrightarrow> (page - 1) * pageSize < 2 ^ 63)"
proof -
  note range = list_params_range [OF assms]
  have pg: "int64 (page - 1) = page - 1" using range(1,2) by (intro int64_small) simp_all
  have nonneg: "0 \<le> (page - 1) * pageSize" using range by simp
  have "int64 x = x \<longleftrightarrow> x < 2 ^ 63" if "0 \<le> x" for x
    using that int64_range [of x] int64_small [of x] by (auto simp: in_int64_def)
  from this [OF nonneg] range pg show ?thesis by (simp add: list_offset_def)
qed

theorem list_products_page_bounds_witness:
  "\<exists>page pageSize. list_params (\<lambda>k. if k = ''page'' then ''92233720368547760'' else ''1000'') = (page, pageSize) \<and>
    1 \<le> page \<and> pageSize = 100 \<and> list_offset page pageSize \<noteq> (page - 1) * pageSize \<and> list_offset page pageSize < 0"
proof -
  let ?query = "\<lambda>k. if k = ''page'' then ''92233720368547760'' else ''1000''"
  have q: "list_params ?query = (92233720368547760, 100)" by code_simp
  have "list_offset 92233720368547760 100 < 0" by code_simp
  with q list_products_page_bounds [OF q] show ?thesis by simp
qed

end
