(* ===== verification/Proxy.thy ===== *)
theory Proxy
  imports GoStrings
begin

text \<open>
  The caching reverse proxy of \<open>src/internal/proxy\<close>: \<open>store.go\<close> and \<open>proxy.go\<close>. The upstream
  server behind \<open>http.Client\<close> is a parameter, a function from a request and a state to a response
  or an error and the state after.

  Shown here: what the proxy replays from its store is a cacheable response of the upstream to
  the same URL within its lifetime; a stored response answers requests of every method; and
  the branch that would serve a stale response is never taken by a request on its own.
\<close>

section \<open>The code: the response store\<close>

text \<open>
  \<open>http.Header\<close>: the values of each name, none where the name is absent. A stored response is never
  changed after \<open>Set\<close>, so the store holds the responses themselves.
\<close>

type_synonym header = "string \<Rightarrow> string list"

record CachedHTTPResponse =
  cr_StatusCode :: int
  cr_Headers :: header
  cr_Body :: bytes
  cr_CachedAt :: time
  cr_ExpiresAt :: time

definition response_IsExpired :: "CachedHTTPResponse \<Rightarrow> time \<Rightarrow> bool" where
  "response_IsExpired r now \<longleftrightarrow> \<not> IsZero (cr_ExpiresAt r) \<and> After now (cr_ExpiresAt r)"

type_synonym ResponseStore = "(string, CachedHTTPResponse) mapping"

definition NewResponseStore :: ResponseStore where
  "NewResponseStore = Mapping.empty"

definition store_Get :: "clock \<Rightarrow> string \<Rightarrow> ResponseStore \<Rightarrow> CachedHTTPResponse option \<times> ResponseStore" where
  "store_Get clk urlKey st = (case Mapping.lookup st urlKey of
     None \<Rightarrow> (None, st)
   | Some entry \<Rightarrow>
       if response_IsExpired entry (clk 0)
       then (None, if response_IsExpired entry (clk 1) then Mapping.delete urlKey st else st)
       else (Some entry, st))"

definition store_Set :: "string \<Rightarrow> CachedHTTPResponse \<Rightarrow> ResponseStore \<Rightarrow> ResponseStore" where
  "store_Set urlKey resp st = Mapping.update urlKey resp st"

definition store_Delete :: "string \<Rightarrow> ResponseStore \<Rightarrow> ResponseStore" where
  "store_Delete urlKey st = Mapping.delete urlKey st"

definition store_Len :: "ResponseStore \<Rightarrow> nat" where
  "store_Len st = Mapping.size st"

section \<open>The code: headers\<close>

definition hdr_Get :: "string \<Rightarrow> header \<Rightarrow> string" where
  "hdr_Get k h = (case h k of [] \<Rightarrow> '''' | v # _ \<Rightarrow> v)"

definition hdr_Set :: "string \<Rightarrow> string \<Rightarrow> header \<Rightarrow> header" where
  "hdr_Set k v h = h(k := [v])"

text \<open>The loops of \<open>copyHeaders\<close> append every value of the source, in order, under its name.\<close>

definition copyHeaders :: "header \<Rightarrow> header \<Rightarrow> header" where
  "copyHeaders dst src = (\<lambda>k. dst k @ src k)"

definition defaultCacheTTL :: duration where
  "defaultCacheTTL = 5 * 60 * Second"

text \<open>The loop over the parts of the header.\<close>

primrec max_age_loop :: "string list \<Rightarrow> bool \<times> duration" where
  "max_age_loop [] = (True, defaultCacheTTL)"
| "max_age_loop (p # ps) =
     (let part = TrimSpace p
      in if HasPrefix ''max-age='' (ToLower part)
         then (case Atoi (TrimSpace (TrimPrefix ''max-age='' (ToLower part))) of
             None \<Rightarrow> max_age_loop ps
           | Some n \<Rightarrow> if n = 0 then (False, 0) else (True, int64 (n * Second)))
         else max_age_loop ps)"

definition parseCacheControl :: "string \<Rightarrow> bool \<times> duration" where
  "parseCacheControl hdr =
     (if hdr = '''' then (True, defaultCacheTTL)
      else if \<exists>directive\<in>set [''no-store'', ''no-cache'', ''private'']. Contains directive (ToLower hdr) then (False, 0)
      else max_age_loop (split_on CHR '','' hdr))"

section \<open>The code: the proxy\<close>

record httpRequest =
  hq_Method :: string
  hq_URI :: string       \<comment> \<open>\<open>r.URL.RequestURI()\<close>: path and query\<close>
  hq_Header :: header
  hq_Body :: bytes

text \<open>What the upstream sends; a body that breaks off is \<open>None\<close>.\<close>

record httpResponse =
  hs_StatusCode :: int
  hs_Header :: header
  hs_Body :: "bytes option"

record upstreamRequest =
  uq_Method :: string
  uq_URL :: string
  uq_Header :: header
  uq_Body :: bytes

type_synonym 'u upstream = "upstreamRequest \<Rightarrow> 'u \<Rightarrow> (string + httpResponse) \<times> 'u"

record clientResponse =
  cl_Status :: int
  cl_Header :: header
  cl_Body :: bytes

definition NewProxy :: "string \<Rightarrow> string \<times> ResponseStore" where
  "NewProxy upstreamURL = (TrimRight (\<lambda>c. c = CHR ''/'') upstreamURL, NewResponseStore)"

definition serveCached :: "CachedHTTPResponse \<Rightarrow> clientResponse" where
  "serveCached cached = \<lparr>cl_Status = cr_StatusCode cached,
     cl_Header = hdr_Set ''X-Proxy-Cache'' ''HIT'' (copyHeaders (\<lambda>_. []) (cr_Headers cached)), cl_Body = cr_Body cached\<rparr>"

text \<open>\<open>http.Error\<close>.\<close>

definition http_Error :: "string \<Rightarrow> int \<Rightarrow> clientResponse" where
  "http_Error msg code = \<lparr>cl_Status = code,
     cl_Header = hdr_Set ''X-Content-Type-Options'' ''nosniff'' (hdr_Set ''Content-Type'' ''text/plain; charset=utf-8'' (\<lambda>_. [])),
     cl_Body = msg @ [CHR 0x0A]\<rparr>"

definition forwardToUpstream :: "string \<Rightarrow> 'u upstream \<Rightarrow> httpRequest \<Rightarrow> 'u \<Rightarrow> (string + httpResponse) \<times> 'u" where
  "forwardToUpstream upstreamURL client r u =
     client \<lparr>uq_Method = hq_Method r, uq_URL = upstreamURL @ hq_URI r,
             uq_Header = copyHeaders (\<lambda>_. []) (hq_Header r), uq_Body = hq_Body r\<rparr> u"

text \<open>Lines 76 to 95: keep the response if it may be kept. Its expiry stays zero unless the lifetime is positive.\<close>

definition cacheable :: "httpResponse \<Rightarrow> bool" where
  "cacheable resp \<longleftrightarrow> fst (parseCacheControl (hdr_Get ''Cache-Control'' (hs_Header resp))) \<and>
     hs_StatusCode resp \<ge> 200 \<and> hs_StatusCode resp < 300"

definition keep_response :: "clock \<Rightarrow> string \<Rightarrow> httpResponse \<Rightarrow> bytes \<Rightarrow> ResponseStore \<Rightarrow> ResponseStore" where
  "keep_response clk cacheKey resp body st =
     (case parseCacheControl (hdr_Get ''Cache-Control'' (hs_Header resp)) of (shouldCache, ttl) \<Rightarrow>
        if shouldCache \<and> hs_StatusCode resp \<ge> 200 \<and> hs_StatusCode resp < 300
        then store_Set cacheKey \<lparr>cr_StatusCode = hs_StatusCode resp, cr_Headers = hs_Header resp, cr_Body = body,
               cr_CachedAt = clk 0, cr_ExpiresAt = (if ttl > 0 then clk 1 + ttl else 0)\<rparr> st
        else st)"

definition ServeHTTP :: "string \<Rightarrow> 'u upstream \<Rightarrow> clock \<Rightarrow> httpRequest \<Rightarrow> ResponseStore \<times> 'u \<Rightarrow>
    clientResponse \<times> ResponseStore \<times> 'u" where
  "ServeHTTP upstreamURL client clk r s = (case s of (st, u) \<Rightarrow>
     let cacheKey = hq_URI r in
     (case store_Get clk cacheKey st of
        (Some cached, st1) \<Rightarrow> (serveCached cached, st1, u)
      | (None, st1) \<Rightarrow> (case forwardToUpstream upstreamURL client r u of
          (Inl err, u1) \<Rightarrow> (case store_Get (later 2 clk) cacheKey st1 of
              (Some stale, st2) \<Rightarrow> (serveCached stale, st2, u1)
            | (None, st2) \<Rightarrow> (http_Error ''upstream unavailable and no cached response available'' 503, st2, u1))
        | (Inr resp, u1) \<Rightarrow> (case hs_Body resp of
              None \<Rightarrow> (http_Error ''failed to read upstream response'' 502, st1, u1)
            | Some body \<Rightarrow> (\<lparr>cl_Status = hs_StatusCode resp, cl_Header = copyHeaders (\<lambda>_. []) (hs_Header resp), cl_Body = body\<rparr>,
                keep_response (later 2 clk) cacheKey resp body st1, u1)))))"

text \<open>
  The routes of \<open>Handler\<close>: \<open>path\<close> is the path of the URL; \<open>dashboardHTML\<close> is the page of \<open>dashboard.go\<close>.
  A pattern with the method GET also matches HEAD.
\<close>

definition quoted :: "string \<Rightarrow> string" where
  "quoted s = CHR 0x22 # s @ [CHR 0x22]"

definition proxy_Handler :: "bytes \<Rightarrow> string \<Rightarrow> 'u upstream \<Rightarrow> clock \<Rightarrow> string \<Rightarrow> httpRequest \<Rightarrow> ResponseStore \<times> 'u \<Rightarrow>
    clientResponse \<times> ResponseStore \<times> 'u" where
  "proxy_Handler dashboardHTML upstreamURL client clk path r s =
     (if path = ''/health'' \<and> hq_Method r \<in> {''GET'', ''HEAD''} then
        (\<lparr>cl_Status = 200, cl_Header = hdr_Set ''Content-Type'' ''application/json'' (\<lambda>_. []),
          cl_Body = ''{'' @ quoted ''healthy'' @ '':true,'' @ quoted ''cached_entries'' @ '':'' @ decimal (store_Len (fst s)) @ ''}''\<rparr>, s)
      else if path = ''/metrics'' \<and> hq_Method r \<in> {''GET'', ''HEAD''} then
        (\<lparr>cl_Status = 200, cl_Header = hdr_Set ''Content-Type'' ''text/plain'' (\<lambda>_. []),
          cl_Body = ''# proxy metrics '' @ [CHR 0xE2, CHR 0x80, CHR 0x94] @ '' prometheus instrumentation added in task 15'' @
            [CHR 0x0A] @ ''proxy_cached_entries '' @ decimal (store_Len (fst s)) @ [CHR 0x0A]\<rparr>, s)
      else if path = ''/'' \<or> path = '''' then
        (\<lparr>cl_Status = 200, cl_Header = hdr_Set ''Content-Type'' ''text/html; charset=utf-8'' (\<lambda>_. []), cl_Body = dashboardHTML\<rparr>, s)
      else ServeHTTP upstreamURL client clk r s)"

section \<open>The store and the lifetime of a response\<close>

lemma store_Get_cases:
  "store_Get clk k st = (case Mapping.lookup st k of
     None \<Rightarrow> (None, st)
   | Some e \<Rightarrow> if response_IsExpired e (clk 0)
              then (None, if response_IsExpired e (clk 1) then Mapping.delete k st else st) else (Some e, st))"
  by (simp add: store_Get_def)

lemma store_Get_hit:
  "fst (store_Get clk k st) = Some e \<longleftrightarrow> Mapping.lookup st k = Some e \<and> \<not> response_IsExpired e (clk 0)"
  by (auto simp: store_Get_def split: option.splits)

lemma store_Get_shrinks:
  "Mapping.lookup (snd (store_Get clk k st)) k' = Some e \<Longrightarrow> Mapping.lookup st k' = Some e"
  by (auto simp: store_Get_def lookup_delete_if split: option.splits if_splits)

lemma response_expired_later: "response_IsExpired e t \<Longrightarrow> t \<le> t' \<Longrightarrow> response_IsExpired e t'"
  by (simp add: response_IsExpired_def)

text \<open>A miss stays a miss.\<close>

lemma store_Get_miss_again:
  assumes "mono clk" "store_Get clk k st = (None, st1)"
  shows "store_Get (later 2 clk) k st1 = (None, st1)"
proof (cases "Mapping.lookup st k")
  case None
  with assms(2) show ?thesis by (auto simp: store_Get_def)
next
  case (Some e)
  with assms(2) have "response_IsExpired e (clk 0)" by (auto simp: store_Get_def split: if_splits)
  then have "response_IsExpired e (clk 1)"
    using mono_clockD [OF assms(1), of 0 1] by (auto intro: response_expired_later)
  with Some assms(2) have "Mapping.lookup st1 k = None"
    by (auto simp: store_Get_def Mapping.lookup_delete split: if_splits)
  then show ?thesis by (simp add: store_Get_def)
qed

section \<open>Where stored responses come from\<close>

text \<open>
  A run of the proxy with what passed between it and the upstream: for each request that was
  forwarded and answered, the time, the request, the response and its body.
\<close>

type_synonym exchange = "time \<times> httpRequest \<times> httpResponse \<times> bytes"

definition answered :: "string \<Rightarrow> 'u upstream \<Rightarrow> clock \<Rightarrow> httpRequest \<Rightarrow> ResponseStore \<times> 'u \<Rightarrow> exchange list" where
  "answered upstreamURL client clk r s = (case s of (st, u) \<Rightarrow>
     (case fst (store_Get clk (hq_URI r) st) of
        Some _ \<Rightarrow> []
      | None \<Rightarrow> (case fst (forwardToUpstream upstreamURL client r u) of
          Inl _ \<Rightarrow> []
        | Inr resp \<Rightarrow> (case hs_Body resp of None \<Rightarrow> [] | Some body \<Rightarrow> [(clk 3, r, resp, body)]))))"

inductive proxy_reach :: "string \<Rightarrow> 'u upstream \<Rightarrow> 'u \<Rightarrow> exchange list \<Rightarrow> ResponseStore \<times> 'u \<Rightarrow> bool"
  for upstreamURL client u0 where
  start: "proxy_reach upstreamURL client u0 [] (NewResponseStore, u0)"
| request: "proxy_reach upstreamURL client u0 log s \<Longrightarrow> mono clk \<Longrightarrow> 0 < clk 0 \<Longrightarrow>
    proxy_reach upstreamURL client u0 (answered upstreamURL client clk r s @ log) (snd (ServeHTTP upstreamURL client clk r s))"

definition lifetime :: "httpResponse \<Rightarrow> duration" where
  "lifetime resp = snd (parseCacheControl (hdr_Get ''Cache-Control'' (hs_Header resp)))"

text \<open>The entry \<open>e\<close> under \<open>k\<close> is a cacheable response to an exchange of the log.\<close>

definition kept_from :: "exchange list \<Rightarrow> string \<Rightarrow> CachedHTTPResponse \<Rightarrow> bool" where
  "kept_from log k e \<longleftrightarrow> (\<exists>(t, r, resp, body)\<in>set log. hq_URI r = k \<and> cacheable resp \<and>
     cr_StatusCode e = hs_StatusCode resp \<and> cr_Headers e = hs_Header resp \<and> cr_Body e = body \<and>
     cr_ExpiresAt e = (if lifetime resp > 0 then t + lifetime resp else 0) \<and> 0 < t)"

lemma kept_from_append: "kept_from log k e \<Longrightarrow> kept_from (new @ log) k e"
  unfolding kept_from_def by auto

lemma lookup_keep_response:
  "Mapping.lookup (keep_response clk k resp body st) k' = Some e \<Longrightarrow> Mapping.lookup st k' = Some e \<or>
     k' = k \<and> cacheable resp \<and> e = \<lparr>cr_StatusCode = hs_StatusCode resp, cr_Headers = hs_Header resp, cr_Body = body,
               cr_CachedAt = clk 0, cr_ExpiresAt = (if lifetime resp > 0 then clk 1 + lifetime resp else 0)\<rparr>"
  by (auto simp: keep_response_def cacheable_def lifetime_def store_Set_def Mapping.lookup_update' split: prod.splits if_splits)

lemma ServeHTTP_store:
  assumes "mono clk" "Mapping.lookup (fst (snd (ServeHTTP url client clk r (st, u)))) k = Some e"
  shows "Mapping.lookup st k = Some e \<or>
    (\<exists>resp body. answered url client clk r (st, u) = [(clk 3, r, resp, body)] \<and> k = hq_URI r \<and> cacheable resp \<and>
       e = \<lparr>cr_StatusCode = hs_StatusCode resp, cr_Headers = hs_Header resp, cr_Body = body, cr_CachedAt = clk 2,
            cr_ExpiresAt = (if lifetime resp > 0 then clk 3 + lifetime resp else 0)\<rparr>)"
proof -
  obtain c st1 where get: "store_Get clk (hq_URI r) st = (c, st1)" by fastforce
  then have old: "Mapping.lookup st1 k' = Some e' \<Longrightarrow> Mapping.lookup st k' = Some e'" for k' e'
    using store_Get_shrinks [of clk "hq_URI r" st] by simp
  obtain f u1 where fwd: "forwardToUpstream url client r u = (f, u1)" by fastforce
  show ?thesis
  proof (cases c)
    case (Some x)
    with get assms(2) old show ?thesis by (simp add: ServeHTTP_def)
  next
    case None
    show ?thesis
    proof (cases f)
      case (Inl err)
      have "store_Get (later 2 clk) (hq_URI r) st1 = (None, st1)"
        using store_Get_miss_again [OF assms(1)] get None by simp
      with get None fwd Inl assms(2) old show ?thesis by (simp add: ServeHTTP_def)
    next
      case (Inr resp)
      show ?thesis
      proof (cases "hs_Body resp")
        case None
        with get \<open>c = None\<close> fwd Inr assms(2) old show ?thesis by (simp add: ServeHTTP_def)
      next
        case (Some body)
        with get None fwd Inr assms(2) have "Mapping.lookup (keep_response (later 2 clk) (hq_URI r) resp body st1) k = Some e"
          by (simp add: ServeHTTP_def)
        from lookup_keep_response [OF this] old get None fwd Inr Some show ?thesis
          by (auto simp: answered_def)
      qed
    qed
  qed
qed

lemma proxy_reach_kept:
  assumes "proxy_reach url client u0 log s" "Mapping.lookup (fst s) k = Some e"
  shows "kept_from log k e"
  using assms
proof (induction arbitrary: k e)
  case start
  then show ?case by (simp add: NewResponseStore_def)
next
  case (request log s clk r)
  obtain st u where s: "s = (st, u)" by fastforce
  from request.prems s have "Mapping.lookup (fst (snd (ServeHTTP url client clk r (st, u)))) k = Some e" by simp
  from ServeHTTP_store [OF request.hyps(2) this] show ?case
  proof
    assume "Mapping.lookup st k = Some e"
    with request.IH [of k e] s show ?thesis by (simp add: kept_from_append)
  next
    have pos: "0 < clk 3" using mono_clockD [OF request.hyps(2), of 0 3] request.hyps(3) by simp
    assume "\<exists>resp body. answered url client clk r (st, u) = [(clk 3, r, resp, body)] \<and> k = hq_URI r \<and> cacheable resp \<and>
       e = \<lparr>cr_StatusCode = hs_StatusCode resp, cr_Headers = hs_Header resp, cr_Body = body, cr_CachedAt = clk 2,
            cr_ExpiresAt = (if lifetime resp > 0 then clk 3 + lifetime resp else 0)\<rparr>"
    with pos show ?thesis unfolding kept_from_def s by force
  qed
qed

lemma ServeHTTP_hit:
  assumes "Mapping.lookup st (hq_URI r) = Some e" "\<not> response_IsExpired e (clk 0)"
  shows "ServeHTTP url client clk r (st, u) = (serveCached e, st, u)"
  using assms by (simp add: ServeHTTP_def store_Get_def)

text \<open>An upstream that counts its requests and answers each with the same page.\<close>

definition counting :: "nat upstream" where
  "counting q n = (Inr \<lparr>hs_StatusCode = 200, hs_Header = (\<lambda>_. []), hs_Body = Some ''page''\<rparr>, n + 1)"

definition page_request :: "string \<Rightarrow> httpRequest" where
  "page_request method = \<lparr>hq_Method = method, hq_URI = ''/products/p1'', hq_Header = (\<lambda>_. []), hq_Body = ''''\<rparr>"

definition page_entry :: CachedHTTPResponse where
  "page_entry = \<lparr>cr_StatusCode = 200, cr_Headers = (\<lambda>_. []), cr_Body = ''page'', cr_CachedAt = 1,
     cr_ExpiresAt = 1 + defaultCacheTTL\<rparr>"

lemma first_page:
  "snd (ServeHTTP '''' counting (\<lambda>_. 1) (page_request ''GET'') (NewResponseStore, 0)) =
     (Mapping.update ''/products/p1'' page_entry Mapping.empty, 1)"
  by (simp add: ServeHTTP_def store_Get_def NewResponseStore_def forwardToUpstream_def counting_def page_request_def
      keep_response_def parseCacheControl_def hdr_Get_def defaultCacheTTL_def store_Set_def page_entry_def)

lemma first_page_reach:
  "\<exists>log. proxy_reach '''' counting 0 log (Mapping.update ''/products/p1'' page_entry Mapping.empty, 1)"
proof -
  have "mono (\<lambda>_. 1 :: time)" by (simp add: mono_def)
  from proxy_reach.request [OF proxy_reach.start this, of "''''" counting 0 "page_request ''GET''"] show ?thesis
    by (auto simp: first_page)
qed

section \<open>Properties\<close>

text \<open>C12. What the proxy replays, the upstream said: in every reachable state, when a request is answered from the
  store without asking the upstream, the answer has the status and the body of an earlier
  response of the upstream to the same URL, a 2xx response whose Cache-Control allows storing it, and
  its lifetime, where it has a positive one, is not over.\<close>

theorem proxy_replays_upstream:
  assumes "proxy_reach url client u0 log (st, u)" "fst (store_Get clk (hq_URI r) st) \<noteq> None"
  shows "\<exists>w t r' resp body. ServeHTTP url client clk r (st, u) = (w, st, u) \<and> (t, r', resp, body) \<in> set log \<and>
    hq_URI r' = hq_URI r \<and> 200 \<le> hs_StatusCode resp \<and> hs_StatusCode resp < 300 \<and>
    fst (parseCacheControl (hdr_Get ''Cache-Control'' (hs_Header resp))) \<and>
    cl_Status w = hs_StatusCode resp \<and> cl_Body w = body \<and> (lifetime resp > 0 \<longrightarrow> clk 0 \<le> t + lifetime resp)"
proof -
  obtain e where e: "Mapping.lookup st (hq_URI r) = Some e" "\<not> response_IsExpired e (clk 0)"
    using assms(2) store_Get_hit by blast
  have "kept_from log (hq_URI r) e" using proxy_reach_kept [OF assms(1)] e(1) by simp
  then obtain t r' resp body where x: "(t, r', resp, body) \<in> set log" "hq_URI r' = hq_URI r" "cacheable resp"
    "cr_StatusCode e = hs_StatusCode resp" "cr_Body e = body"
    "cr_ExpiresAt e = (if lifetime resp > 0 then t + lifetime resp else 0)" "0 < t"
    unfolding kept_from_def by blast
  have "clk 0 \<le> t + lifetime resp" if "lifetime resp > 0"
    using e(2) x(6,7) that by (simp add: response_IsExpired_def)
  with ServeHTTP_hit [of st r e clk url client u, OF e] x show ?thesis
    by (intro exI [of _ "serveCached e"] exI [of _ t] exI [of _ r'] exI [of _ resp] exI [of _ body])
      (simp add: serveCached_def cacheable_def)
qed

theorem proxy_replays_upstream_witness:
  "\<exists>log st w t r' resp body. proxy_reach '''' counting 0 log (st, 1) \<and>
    ServeHTTP '''' counting (\<lambda>_. 2) (page_request ''GET'') (st, 1) = (w, st, 1) \<and> (t, r', resp, body) \<in> set log \<and>
    hq_URI r' = hq_URI (page_request ''GET'') \<and> cl_Body w = body \<and> (lifetime resp > 0 \<longrightarrow> 2 \<le> t + lifetime resp)"
proof -
  let ?st = "Mapping.update ''/products/p1'' page_entry Mapping.empty"
  obtain log where log: "proxy_reach '''' counting 0 log (?st, 1)" using first_page_reach by blast
  have "fst (store_Get (\<lambda>_. 2) (hq_URI (page_request ''GET'')) ?st) \<noteq> None"
    by (simp add: store_Get_def page_request_def response_IsExpired_def page_entry_def defaultCacheTTL_def)
  from proxy_replays_upstream [OF log this] log show ?thesis by blast
qed

text \<open>A stored response answers requests of every method: while it is fresh, a PUT or a DELETE of the same URL
  is answered with the stored response, and nothing is forwarded to the upstream.\<close>

theorem proxy_swallows_writes:
  assumes "Mapping.lookup st (hq_URI r) = Some e" "\<not> response_IsExpired e (clk 0)"
  shows "ServeHTTP url client clk (r\<lparr>hq_Method := method, hq_Body := body\<rparr>) (st, u) = (serveCached e, st, u)"
  by (rule ServeHTTP_hit) (use assms in simp_all)

theorem proxy_swallows_writes_witness:
  "ServeHTTP '''' counting (\<lambda>_. 2) (page_request ''GET''\<lparr>hq_Method := ''PUT'', hq_Body := ''new page''\<rparr>)
     (snd (ServeHTTP '''' counting (\<lambda>_. 1) (page_request ''GET'') (NewResponseStore, 0))) =
   (serveCached page_entry, Mapping.update ''/products/p1'' page_entry Mapping.empty, 1)"
  unfolding first_page
  by (rule proxy_swallows_writes) (simp_all add: page_request_def response_IsExpired_def page_entry_def defaultCacheTTL_def)

text \<open>C38. No stale response is served when the upstream fails: a request on its own that misses the store and whose
  upstream call fails is answered 503, also when the store held an expired response.\<close>

theorem proxy_never_serves_stale:
  assumes "mono clk" "fst (store_Get clk (hq_URI r) st) = None" "fst (forwardToUpstream url client r u) = Inl err"
  shows "cl_Status (fst (ServeHTTP url client clk r (st, u))) = 503"
proof -
  obtain st1 u1 where g: "store_Get clk (hq_URI r) st = (None, st1)" "forwardToUpstream url client r u = (Inl err, u1)"
    using assms(2,3) by (metis prod.collapse)
  with store_Get_miss_again [OF assms(1) g(1)] show ?thesis by (simp add: ServeHTTP_def http_Error_def)
qed

theorem proxy_never_serves_stale_witness:
  "cl_Status (fst (ServeHTTP '''' (\<lambda>_ n. (Inl ''timeout'', n)) (\<lambda>_. 2 + defaultCacheTTL) (page_request ''GET'')
     (Mapping.update ''/products/p1'' page_entry Mapping.empty, 0 :: nat))) = 503"
  by (rule proxy_never_serves_stale [where err = "''timeout''"])
    (simp_all add: mono_def store_Get_def page_request_def response_IsExpired_def page_entry_def defaultCacheTTL_def forwardToUpstream_def)

end
