(* ===== verification/Deployment.thy ===== *)
theory Deployment
  imports Config
begin

text \<open>
  A cache node as \<open>src/cmd/cachenode/main.go\<close> runs it: the Raft node on the gRPC transport of
  \<open>src/internal/cluster/transport.go\<close>, the goroutine that tells the coordinator about leaders, and
  the two HTTP endpoints. Dialling a peer is a parameter: it fails or gives a connection.

  Shown here: on this transport no node ever leads, so no deployed coordinator routes a key.
\<close>

section \<open>The code: the transport\<close>

datatype transport_error = DialFailed string string | ProtoGenRequired

text \<open>\<open>dial\<close> gives the error of \<open>grpc.DialContext\<close>, if any.\<close>

type_synonym dialer = "string \<Rightarrow> string option"

definition grpc_RequestVote :: "dialer \<Rightarrow> string \<Rightarrow> RequestVoteRequest \<Rightarrow> transport_error + RequestVoteResponse" where
  "grpc_RequestVote dial peerAddr req = (case dial peerAddr of
     Some err \<Rightarrow> Inl (DialFailed peerAddr err)
   | None \<Rightarrow> Inl ProtoGenRequired)"

definition grpc_AppendEntries :: "dialer \<Rightarrow> string \<Rightarrow> AppendEntriesRequest \<Rightarrow> transport_error + AppendEntriesResponse" where
  "grpc_AppendEntries dial peerAddr req = (case dial peerAddr of
     Some err \<Rightarrow> Inl (DialFailed peerAddr err)
   | None \<Rightarrow> Inl ProtoGenRequired)"

definition no_error :: "'e + 'a \<Rightarrow> 'a option" where
  "no_error r = (case r of Inl _ \<Rightarrow> None | Inr x \<Rightarrow> Some x)"

section \<open>The code: a running node\<close>

text \<open>
  The peers are asked with the term the node has as candidate; the answers are collected in an
  order that \<open>arrive\<close> chooses.
\<close>

definition election_results :: "dialer \<Rightarrow> RaftNode \<Rightarrow> voteResult list" where
  "election_results dial n =
     map (\<lambda>p. vote_result (no_error (grpc_RequestVote dial (peer_Addr p) \<lparr>rv_Term = int64 (rn_term n + 1), rv_CandidateID = rn_id n\<rparr>)))
       (rn_peers n)"

datatype nodeEvent =
    TimerFires time "nat \<Rightarrow> bool" dialer "voteResult list \<Rightarrow> voteResult list"
  | VoteAsked "nat \<Rightarrow> bool" RequestVoteRequest
  | HeartbeatReceived bool time AppendEntriesRequest
  | HeartbeatDue bool dialer
  | ChannelReceived

definition heartbeat_replies :: "bool \<Rightarrow> dialer \<Rightarrow> RaftNode \<Rightarrow> RaftNode" where
  "heartbeat_replies ok dial n =
     (if rn_state n = Leader then
        fold (\<lambda>p n'. case grpc_AppendEntries dial (peer_Addr p) (heartbeat_request n) of
            Inl _ \<Rightarrow> n' | Inr resp \<Rightarrow> heartbeat_reply ok resp n') (rn_peers n) n
      else n)"

definition node_event :: "nodeEvent \<Rightarrow> cacheNode \<Rightarrow> cacheNode" where
  "node_event e d = (case e of
     TimerFires now ok dial arrive \<Rightarrow>
       (if election_due now (cn_raft d)
        then d\<lparr>cn_raft := startElection ok (arrive (election_results dial (cn_raft d))) (cn_raft d)\<rparr> else d)
   | VoteAsked ok req \<Rightarrow> d\<lparr>cn_raft := snd (HandleRequestVote ok req (cn_raft d))\<rparr>
   | HeartbeatReceived ok now req \<Rightarrow> d\<lparr>cn_raft := snd (HandleAppendEntries ok now req (cn_raft d))\<rparr>
   | HeartbeatDue ok dial \<Rightarrow> d\<lparr>cn_raft := heartbeat_replies ok dial (cn_raft d)\<rparr>
   | ChannelReceived \<Rightarrow>
       (case receive_leader (rn_id (cn_raft d)) (cn_raft d) (cn_coordinator d) of
          (n, c) \<Rightarrow> d\<lparr>cn_raft := n, cn_coordinator := c\<rparr>))"

text \<open>An order of arrival keeps the answers.\<close>

definition event_ok :: "nodeEvent \<Rightarrow> bool" where
  "event_ok e \<longleftrightarrow> (case e of TimerFires _ _ _ arrive \<Rightarrow> (\<forall>rs. mset (arrive rs) = mset rs) | _ \<Rightarrow> True)"

section \<open>The code: the endpoints\<close>

text \<open>\<open>%q\<close> is the parameter \<open>Quote\<close>.\<close>

definition quote_char :: string where
  "quote_char = [CHR 0x22]"

definition newline :: string where
  "newline = [CHR 0x0A]"

definition json_field :: "string \<Rightarrow> string" where
  "json_field name = quote_char @ name @ quote_char @ '':''"

definition bool_text :: "bool \<Rightarrow> string" where
  "bool_text b = (if b then ''true'' else ''false'')"

definition health_endpoint :: "(string \<Rightarrow> string) \<Rightarrow> cacheNode \<Rightarrow> int \<times> string" where
  "health_endpoint Quote d = (case server_Health (IsLeader (cn_coordinator d)) (cn_server d) of (healthy, isCoord) \<Rightarrow>
     if \<not> healthy
     then (503, ''{'' @ json_field ''healthy'' @ ''false,'' @ json_field ''node_id'' @ Quote (cs_nodeID (cn_server d)) @ ''}'')
     else (200, ''{'' @ json_field ''healthy'' @ ''true,'' @ json_field ''node_id'' @ Quote (cs_nodeID (cn_server d)) @
             '','' @ json_field ''is_coordinator'' @ bool_text isCoord @ ''}''))"

definition metrics_endpoint :: "cacheNode \<Rightarrow> string" where
  "metrics_endpoint d = (case server_Stats policies (cn_server d) of (hits, misses, evictions, entries, policyName) \<Rightarrow>
     ''# cache stats for '' @ cs_nodeID (cn_server d) @ '' (policy='' @ policyName @ '')'' @ newline @
     ''cache_hits '' @ decimal_int hits @ newline @ ''cache_misses '' @ decimal_int misses @ newline @
     ''cache_evictions '' @ decimal_int evictions @ newline @ ''cache_entries '' @ decimal_int entries @ newline)"

section \<open>No leader\<close>

lemma collect_votes_refused:
  assumes "\<forall>r\<in>set rs. \<not> vr_granted r" "rn_state n \<noteq> Leader" "rn_leaderCh n = None"
  shows "rn_state (collect_votes ok rs v n) \<noteq> Leader \<and> rn_leaderCh (collect_votes ok rs v n) = None \<and>
    rn_id (collect_votes ok rs v n) = rn_id n"
  using assms by (induction rs) (auto simp: collect_vote_def split: prod.splits collecting.splits)

lemma election_results_refused: "r \<in> set (election_results dial n) \<Longrightarrow> \<not> vr_granted r"
  by (auto simp: election_results_def no_error_def grpc_RequestVote_def vote_result_def split: option.splits)

definition powerless :: "cacheNode \<Rightarrow> bool" where
  "powerless d \<longleftrightarrow> rn_state (cn_raft d) \<noteq> Leader \<and> rn_leaderCh (cn_raft d) = None \<and> \<not> IsLeader (cn_coordinator d)"

lemma saveState_state [simp]:
  "rn_state (saveState ok n) = rn_state n" "rn_leaderCh (saveState ok n) = rn_leaderCh n"
  by (simp_all add: saveState_def)

lemma powerless_election:
  assumes "rn_state n \<noteq> Leader" "rn_leaderCh n = None" "\<And>rs. mset (arrive rs) = mset rs"
  shows "rn_state (startElection ok (arrive (election_results dial n)) n) \<noteq> Leader \<and>
    rn_leaderCh (startElection ok (arrive (election_results dial n)) n) = None"
proof -
  have "set (arrive (election_results dial n)) = set (election_results dial n)" by (rule mset_eq_setD [OF assms(3)])
  then have "\<forall>r\<in>set (arrive (election_results dial n)). \<not> vr_granted r" using election_results_refused by blast
  moreover have "rn_leaderCh (becomeCandidate (ok 0) n) = None" using assms(2) by (simp add: becomeCandidate_def)
  ultimately show ?thesis
    using collect_votes_refused [of "arrive (election_results dial n)" "becomeCandidate (ok 0) n" "ok 1" 1]
    by (simp add: startElection_def)
qed

lemma powerless_event:
  assumes "powerless d" "event_ok e"
  shows "powerless (node_event e d)"
proof (cases e)
  case (TimerFires now ok dial arrive)
  then show ?thesis
    using assms powerless_election [of "cn_raft d" arrive ok dial] by (simp add: powerless_def node_event_def event_ok_def)
next
  case (VoteAsked ok req)
  then show ?thesis using assms(1) by (auto simp: powerless_def node_event_def HandleRequestVote_def Let_def)
next
  case (HeartbeatReceived ok now req)
  then show ?thesis using assms(1) by (auto simp: powerless_def node_event_def HandleAppendEntries_def Let_def)
next
  case (HeartbeatDue ok dial)
  then show ?thesis using assms(1) by (simp add: powerless_def node_event_def heartbeat_replies_def)
next
  case ChannelReceived
  then show ?thesis using assms(1) by (simp add: powerless_def node_event_def receive_leader_def)
qed

lemma powerless_run: "powerless d \<Longrightarrow> list_all event_ok es \<Longrightarrow> powerless (fold node_event es d)"
  by (induction es arbitrary: d) (simp_all add: powerless_event)

lemma powerless_started:
  assumes "start_cachenode env draws disk nodeID grpcPort peersFlag = Inr d"
  shows "powerless d"
  using assms by (auto simp: start_cachenode_def powerless_def NewRaftNode_def build_coordinator_def NewCoordinator_def IsLeader_def
      Let_def split: if_splits sum.splits)

section \<open>Properties\<close>

text \<open>C25. A deployed cluster has no coordinator. Whatever node is started, with whatever flags and peers, and
  whatever happens to it afterwards, it is never leader and routes no key: each call of
  the gRPC transport fails, whether or not the peer can be dialled, so no vote ever arrives.\<close>

theorem deployed_cluster_has_no_coordinator:
  assumes "start_cachenode env draws disk nodeID grpcPort peersFlag = Inr d" "list_all event_ok es"
  shows "let d' = fold node_event es d
         in rn_state (cn_raft d') \<noteq> Leader \<and> Route key (cn_coordinator d') = (noRoute, False, Some ErrNoCoordinator)"
  using powerless_run [OF powerless_started [OF assms(1)] assms(2)]
  by (simp add: powerless_def Let_def Route_def IsLeader_def)

theorem deployed_cluster_has_no_coordinator_witness:
  "\<exists>d. start_cachenode (\<lambda>_. '''') (\<lambda>_. 0) NoFile ''node1'' 9001 ''node2:9002,node3:9003'' = Inr d \<and>
     (let d' = fold node_event [TimerFires (200 * Millisecond) (\<lambda>_. True) (\<lambda>_. None) rev, ChannelReceived] d
      in rn_state (cn_raft d') \<noteq> Leader \<and> Route ''product:1'' (cn_coordinator d') = (noRoute, False, Some ErrNoCoordinator))"
proof -
  obtain d where d: "start_cachenode (\<lambda>_. '''') (\<lambda>_. 0) NoFile ''node1'' 9001 ''node2:9002,node3:9003'' = Inr d"
    by (simp add: start_cachenode_def Load_def getEnv_def getEnvInt_def NewRaftNode_def loadState_def Let_def)
  have "list_all event_ok [TimerFires (200 * Millisecond) (\<lambda>_. True) (\<lambda>_. None) rev, ChannelReceived]"
    by (simp add: event_ok_def)
  from deployed_cluster_has_no_coordinator [OF d this, of "''product:1''"] d show ?thesis by blast
qed

end
