(* ===== verification/Debug.thy ===== *)
theory Debug
  imports Api Deployment
begin

text \<open>
  The diagnostic endpoints of \<open>src/internal/api/debug.go\<close> and the routes of \<open>src/internal/api/server.go\<close>. The
  HTTP client that asks the cache nodes, and what \<open>encoding/json\<close> reads in an answer, are parameters.

  Shown here: the status of a cluster lists every node with the health it reports, and loses
  every count, because the format given to \<open>Fscanf\<close> has a verb it does not know.
\<close>

section \<open>The code: one key\<close>

record CacheDebugResponse =
  cd_Key :: string
  cd_OwnerNode :: string
  cd_OwnerAddr :: string
  cd_InCache :: bool
  cd_CacheStatus :: string
  cd_IsCoordinator :: bool

text \<open>The answer, or the message of a \<open>400 Bad Request\<close>, and the cache after the lookup.\<close>

definition CacheDebug :: "'p EvictionPolicy \<Rightarrow> Ring \<Rightarrow> Coordinator \<Rightarrow> clock \<Rightarrow> string \<Rightarrow> 'p InMemoryCache \<Rightarrow>
    ((string + CacheDebugResponse) \<times> 'p InMemoryCache) option" where
  "CacheDebug P ring coordinator clk key c =
     (if key = '''' then Some (Inl ''key is required'', c)
      else do {
        (found, c') \<leftarrow> cache_Get P clk key c;
        Some (Inr \<lparr>cd_Key = key,
          cd_OwnerNode = (case ring_Get key ring of Some (nodeID, _) \<Rightarrow> nodeID | None \<Rightarrow> ''unknown''),
          cd_OwnerAddr = (case ring_Get key ring of Some (_, addr) \<Rightarrow> addr | None \<Rightarrow> ''''),
          cd_InCache = (found \<noteq> None), cd_CacheStatus = (if found \<noteq> None then ''HIT'' else ''MISS''),
          cd_IsCoordinator = IsLeader coordinator\<rparr>, c') })"

section \<open>The code: scanning\<close>

text \<open>
  \<open>fmt.Fscanf\<close> on integers: the text of the format has to be matched, \<open>%d\<close> reads an integer, and at any
  other verb the scan ends with an error. The result is the list of the values it has stored.
\<close>

datatype scanItem = ScanText char | ScanVerb char

fun scan_items :: "string \<Rightarrow> scanItem list" where
  "scan_items [] = []"
| "scan_items [c] = [ScanText c]"
| "scan_items (c # d # s) = (if c = CHR ''%'' then ScanVerb d # scan_items s else ScanText c # scan_items (d # s))"

fun scan :: "scanItem list \<Rightarrow> string \<Rightarrow> int list" where
  "scan [] body = []"
| "scan (ScanText c # items) body = (case body of b # rest \<Rightarrow> if b = c then scan items rest else [] | [] \<Rightarrow> [])"
| "scan (ScanVerb v # items) body =
     (if v = CHR ''d'' then
        let text = dropWhile (\<lambda>b. b = CHR '' '') body; sign = (if HasPrefix ''-'' text then ''-'' else '''');
            digits = takeWhile is_digit (drop (length sign) text)
        in (case Atoi (sign @ digits) of
              None \<Rightarrow> []
            | Some n \<Rightarrow> n # scan items (drop (length sign + length digits) text))
      else [])"

definition Fscanf :: "string \<Rightarrow> string \<Rightarrow> int list" where
  "Fscanf format body = scan (scan_items format) body"

text \<open>A variable that is not reached keeps its zero.\<close>

definition scanned :: "int list \<Rightarrow> nat \<Rightarrow> int" where
  "scanned vs i = (if i < length vs then vs ! i else 0)"

section \<open>The code: the status of the cluster\<close>

record NodeStatus =
  ns_NodeID :: string
  ns_Healthy :: bool
  ns_IsCoordinator :: bool
  ns_EntryCount :: int
  ns_HitCount :: int
  ns_MissCount :: int
  ns_EvictionCount :: int
  ns_Error :: string

definition blankStatus :: "string \<Rightarrow> NodeStatus" where
  "blankStatus nodeID = \<lparr>ns_NodeID = nodeID, ns_Healthy = False, ns_IsCoordinator = False, ns_EntryCount = 0, ns_HitCount = 0,
     ns_MissCount = 0, ns_EvictionCount = 0, ns_Error = ''''\<rparr>"

record ClusterStatusResponse =
  st_Nodes :: "NodeStatus list"
  st_Coordinator :: string

text \<open>What asking a URL gives: the request cannot be made, the call fails, or the body of an answer.\<close>

datatype httpAnswer = BadRequestURL string | CallFailed | AnswerBody string

record nodeHealthJSON =
  hj_Healthy :: bool
  hj_NodeID :: string
  hj_IsCoordinator :: bool

definition stats_format :: string where
  "stats_format = ''# cache stats for %*s'' @ newline @ ''cache_hits %d'' @ newline @ ''cache_misses %d'' @ newline @
     ''cache_evictions %d'' @ newline @ ''cache_entries %d'' @ newline"

definition fetchNodeStats :: "(string \<Rightarrow> httpAnswer) \<Rightarrow> string \<Rightarrow> string \<Rightarrow> NodeStatus" where
  "fetchNodeStats http nodeID metricsURL = (case http metricsURL of
     AnswerBody body \<Rightarrow>
       let vs = Fscanf stats_format body
       in (blankStatus nodeID)\<lparr>ns_HitCount := scanned vs 0, ns_MissCount := scanned vs 1, ns_EvictionCount := scanned vs 2,
            ns_EntryCount := scanned vs 3\<rparr>
   | _ \<Rightarrow> blankStatus nodeID)"

definition fetchNodeHealth :: "(string \<Rightarrow> nodeHealthJSON option) \<Rightarrow> (string \<Rightarrow> httpAnswer) \<Rightarrow> string \<Rightarrow> string \<Rightarrow> NodeStatus" where
  "fetchNodeHealth decode http nodeID httpAddr = (case http (''http://'' @ httpAddr @ ''/health'') of
     BadRequestURL err \<Rightarrow> (blankStatus nodeID)\<lparr>ns_Error := err\<rparr>
   | CallFailed \<Rightarrow> (blankStatus nodeID)\<lparr>ns_Error := ''unreachable''\<rparr>
   | AnswerBody body \<Rightarrow> (case decode body of
       None \<Rightarrow> (blankStatus nodeID)\<lparr>ns_Error := ''bad response''\<rparr>
     | Some health \<Rightarrow>
         (fetchNodeStats http nodeID (''http://'' @ httpAddr @ ''/metrics''))
           \<lparr>ns_NodeID := nodeID, ns_Healthy := hj_Healthy health, ns_IsCoordinator := hj_IsCoordinator health\<rparr>))"

definition node_status :: "(string \<Rightarrow> nodeHealthJSON option) \<Rightarrow> (string \<Rightarrow> httpAnswer) \<Rightarrow> (string, string) mapping \<Rightarrow> string \<Rightarrow> NodeStatus" where
  "node_status decode http addrs nodeID = (case Mapping.lookup addrs nodeID of
     None \<Rightarrow> (blankStatus nodeID)\<lparr>ns_Error := ''address not configured''\<rparr>
   | Some httpAddr \<Rightarrow> fetchNodeHealth decode http nodeID httpAddr)"

text \<open>\<open>nodes\<close> is the order in which \<open>Nodes\<close> lists the ring.\<close>

definition ClusterStatus :: "(string \<Rightarrow> nodeHealthJSON option) \<Rightarrow> (string \<Rightarrow> httpAnswer) \<Rightarrow> (string, string) mapping \<Rightarrow> string list \<Rightarrow>
    ClusterStatusResponse" where
  "ClusterStatus decode http addrs nodes =
     fold (\<lambda>nodeID resp.
         let status = node_status decode http addrs nodeID
         in \<lparr>st_Nodes = st_Nodes resp @ [status],
             st_Coordinator = (if ns_IsCoordinator status then nodeID else st_Coordinator resp)\<rparr>)
       nodes \<lparr>st_Nodes = [], st_Coordinator = ''''\<rparr>"

section \<open>The code: the routes\<close>

text \<open>
  The patterns of the multiplexer on the segments of a path. A pattern for \<open>GET\<close> also takes \<open>HEAD\<close>; a
  path that only patterns with other methods match is answered 405, any other path 404.
\<close>

datatype apiRoute =
    RouteGetProduct string | RouteListProducts | RouteCreateProduct | RouteUpdateProduct string
  | RouteCacheDebug string | RouteClusterStatus | RouteHealth | RouteMetrics
  | RouteMethodNotAllowed | RouteNotFound

definition route_method :: "string \<Rightarrow> (string \<times> apiRoute) list \<Rightarrow> apiRoute" where
  "route_method method handlers =
     (case map_of handlers (if method = ''HEAD'' then ''GET'' else method) of
        Some h \<Rightarrow> h | None \<Rightarrow> if handlers = [] then RouteNotFound else RouteMethodNotAllowed)"

definition api_routes :: "bool \<Rightarrow> string list \<Rightarrow> (string \<times> apiRoute) list" where
  "api_routes debug segments =
     (if segments = [''products''] then [(''GET'', RouteListProducts), (''POST'', RouteCreateProduct)]
      else if segments = [''health''] then [(''GET'', RouteHealth)]
      else if segments = [''metrics''] then [(''GET'', RouteMetrics)]
      else case segments of
        [a, b] \<Rightarrow>
          if a = ''products'' then [(''GET'', RouteGetProduct b), (''PUT'', RouteUpdateProduct b)]
          else if debug \<and> a = ''cluster'' \<and> b = ''status'' then [(''GET'', RouteClusterStatus)] else []
      | [a, b, key] \<Rightarrow> if debug \<and> a = ''cache'' \<and> b = ''debug'' then [(''GET'', RouteCacheDebug key)] else []
      | _ \<Rightarrow> [])"

definition api_route :: "bool \<Rightarrow> string \<Rightarrow> string list \<Rightarrow> apiRoute" where
  "api_route debug method segments = route_method method (api_routes debug segments)"

section \<open>Scanning\<close>

lemma scan_stops: "v \<noteq> CHR ''d'' \<Longrightarrow> scan (map ScanText s @ ScanVerb v # items) body = []"
  by (induction s arbitrary: body) (auto split: list.splits)

lemma scan_items_text: "CHR ''%'' \<notin> set s \<Longrightarrow> scan_items (s @ CHR ''%'' # v # rest) = map ScanText s @ ScanVerb v # scan_items rest"
proof (induction s)
  case (Cons c s)
  then show ?case by (cases s) auto
qed simp

lemma Fscanf_stats_format [simp]: "Fscanf stats_format body = []"
proof -
  let ?rest = "''s'' @ newline @ ''cache_hits %d'' @ newline @ ''cache_misses %d'' @ newline @ ''cache_evictions %d'' @ newline @
    ''cache_entries %d'' @ newline"
  have eq: "stats_format = ''# cache stats for '' @ CHR ''%'' # CHR ''*'' # ?rest" by (simp add: stats_format_def)
  have "scan_items stats_format = map ScanText ''# cache stats for '' @ ScanVerb CHR ''*'' # scan_items ?rest"
    unfolding eq by (rule scan_items_text) simp
  then have "Fscanf stats_format body = scan (map ScanText ''# cache stats for '' @ ScanVerb CHR ''*'' # scan_items ?rest) body"
    by (simp only: Fscanf_def)
  also have "\<dots> = []" by (rule scan_stops) simp
  finally show ?thesis .
qed

text \<open>With verbs it knows, \<open>Fscanf\<close> reads what the endpoint writes.\<close>

lemma Fscanf_reads: "Fscanf (''cache_hits %d'' @ newline @ ''cache_misses %d'') (''cache_hits 12'' @ newline @ ''cache_misses -3'') = [12, -3]"
  by (simp add: Fscanf_def newline_def is_digit_def Atoi_def digits_val_def digit_val_def in_int64_def Let_def)

section \<open>Statuses\<close>

lemma fetchNodeStats_blank: "fetchNodeStats http nodeID url = blankStatus nodeID"
  by (simp add: fetchNodeStats_def scanned_def blankStatus_def split: httpAnswer.splits)

lemma ClusterStatus_fold:
  fixes f :: "string \<Rightarrow> NodeStatus"
  shows "fold (\<lambda>nodeID resp. let status = f nodeID
         in \<lparr>st_Nodes = st_Nodes resp @ [status], st_Coordinator = (if ns_IsCoordinator status then nodeID else st_Coordinator resp)\<rparr>)
       nodes \<lparr>st_Nodes = ss, st_Coordinator = c\<rparr> =
     \<lparr>st_Nodes = ss @ map f nodes,
      st_Coordinator = (case filter (\<lambda>n. ns_IsCoordinator (f n)) nodes of [] \<Rightarrow> c | ns \<Rightarrow> last ns)\<rparr>"
  by (induction nodes arbitrary: ss c) (auto simp: Let_def split: list.splits)

lemma ClusterStatus_nodes:
  "ClusterStatus decode http addrs nodes =
     \<lparr>st_Nodes = map (node_status decode http addrs) nodes,
      st_Coordinator = (case filter (\<lambda>n. ns_IsCoordinator (node_status decode http addrs n)) nodes of [] \<Rightarrow> '''' | ns \<Rightarrow> last ns)\<rparr>"
  unfolding ClusterStatus_def ClusterStatus_fold by simp

lemma CacheDebug_reports:
  assumes "cache_inv policy_inv policy_tracked c" "mono clk" "key \<noteq> ''''"
  obtains r c' where "CacheDebug policies ring co clk key c = Some (Inr r, c')" "cache_inv policy_inv policy_tracked c'"
    "cd_InCache r \<longleftrightarrow> fst (spec_Get (clk 0) key (cache_view c)) \<noteq> None" "cd_CacheStatus r = (if cd_InCache r then ''HIT'' else ''MISS'')"
    "ring_Get key ring = Some (owner, addr) \<Longrightarrow> cd_OwnerNode r = owner \<and> cd_OwnerAddr r = addr"
proof -
  obtain c' where "cache_Get policies clk key c = Some (fst (spec_Get (clk 0) key (cache_view c)), c')"
    "cache_inv policy_inv policy_tracked c'"
    using any.Get_correct [OF assms(1,2), of key] by blast
  then show thesis using that assms(3) by (simp add: CacheDebug_def)
qed

lemma api_debug_routes:
  "api_route True ''GET'' [''cache'', ''debug'', key] = RouteCacheDebug key"
  "api_route False ''GET'' [''cache'', ''debug'', key] = RouteNotFound"
  "api_route debug ''DELETE'' [''products'', pid] = RouteMethodNotAllowed"
  by (simp_all add: api_route_def api_routes_def route_method_def)

section \<open>Properties\<close>

text \<open>C31. The status of a running cluster lists every node, healthy, with the leadership it reports, and names a
  coordinator when a node leads. It loses all counts: entries, hits, misses and evictions are reported as
  zero whatever the nodes' \<open>/metrics\<close> say.\<close>

theorem cluster_status_loses_counts:
  assumes "\<And>n. n \<in> set nodes \<Longrightarrow> Mapping.lookup addrs n = Some (addr n)"
    and "\<And>n. n \<in> set nodes \<Longrightarrow> http (''http://'' @ addr n @ ''/health'') = AnswerBody (snd (health_endpoint Quote (d n)))"
    and "\<And>n. n \<in> set nodes \<Longrightarrow> http (''http://'' @ addr n @ ''/metrics'') = AnswerBody (metrics_endpoint (d n))"
    and "\<And>n. n \<in> set nodes \<Longrightarrow> decode (snd (health_endpoint Quote (d n))) =
       Some \<lparr>hj_Healthy = True, hj_NodeID = cs_nodeID (cn_server (d n)), hj_IsCoordinator = IsLeader (cn_coordinator (d n))\<rparr>"
  shows "let status = ClusterStatus decode http addrs nodes
         in st_Nodes status = map (\<lambda>n. \<lparr>ns_NodeID = n, ns_Healthy = True, ns_IsCoordinator = IsLeader (cn_coordinator (d n)),
              ns_EntryCount = 0, ns_HitCount = 0, ns_MissCount = 0, ns_EvictionCount = 0, ns_Error = ''''\<rparr>) nodes \<and>
            (if \<exists>n\<in>set nodes. IsLeader (cn_coordinator (d n))
             then st_Coordinator status \<in> set nodes \<and> IsLeader (cn_coordinator (d (st_Coordinator status)))
             else st_Coordinator status = '''')"
proof -
  let ?s = "node_status decode http addrs"
  have s: "?s n = \<lparr>ns_NodeID = n, ns_Healthy = True, ns_IsCoordinator = IsLeader (cn_coordinator (d n)),
      ns_EntryCount = 0, ns_HitCount = 0, ns_MissCount = 0, ns_EvictionCount = 0, ns_Error = ''''\<rparr>" if "n \<in> set nodes" for n
    using assms(1,2,4) [OF that] by (simp add: node_status_def fetchNodeHealth_def fetchNodeStats_blank blankStatus_def)
  let ?ls = "filter (\<lambda>n. ns_IsCoordinator (?s n)) nodes"
  have ls: "?ls = filter (\<lambda>n. IsLeader (cn_coordinator (d n))) nodes" by (rule filter_cong) (simp_all add: s)
  have "(case ?ls of [] \<Rightarrow> '''' | ns \<Rightarrow> last ns) = (if ?ls = [] then '''' else last ?ls)" by (simp split: list.splits)
  moreover have "last ?ls \<in> set ?ls" if "?ls \<noteq> []" using that by (rule last_in_set)
  ultimately show ?thesis
    unfolding ClusterStatus_nodes ls by (auto simp: Let_def s filter_empty_conv)
qed

text \<open>A leading node that has answered three requests from its cache.\<close>

definition busy_node :: cacheNode where
  "busy_node = \<lparr>cn_server = (NewCacheServer ''node1'' (cache_New 9 (PolicyLRU NewLRU)))\<lparr>cs_metrics := \<lparr>m_hits = 3, m_misses = 0, m_evictions = 0\<rparr>\<rparr>,
     cn_raft = fresh_node ''node1'' [], cn_coordinator = two_node_cluster\<rparr>"

theorem cluster_status_loses_counts_witness:
  "let status = ClusterStatus (\<lambda>_. Some \<lparr>hj_Healthy = True, hj_NodeID = ''node1'', hj_IsCoordinator = True\<rparr>)
       (\<lambda>url. AnswerBody (if url = ''http://node1:9101/health'' then snd (health_endpoint (\<lambda>s. s) busy_node) else metrics_endpoint busy_node))
       (Mapping.update ''node1'' ''node1:9101'' Mapping.empty) [''node1'']
   in map ns_HitCount (st_Nodes status) = [0] \<and> st_Coordinator status = ''node1''"
proof -
  have lead: "IsLeader (cn_coordinator busy_node)" by (simp add: busy_node_def two_node_cluster_def SetLeader_def IsLeader_def)
  have n: "cs_nodeID (cn_server busy_node) = ''node1''" by (simp add: busy_node_def NewCacheServer_def)
  show ?thesis
    using cluster_status_loses_counts [of "[''node1'']" "Mapping.update ''node1'' ''node1:9101'' Mapping.empty" "\<lambda>_. ''node1:9101''"
        "\<lambda>url. AnswerBody (if url = ''http://node1:9101/health'' then snd (health_endpoint (\<lambda>s. s) busy_node) else metrics_endpoint busy_node)"
        "\<lambda>s. s" "\<lambda>_. busy_node" "\<lambda>_. Some \<lparr>hj_Healthy = True, hj_NodeID = ''node1'', hj_IsCoordinator = True\<rparr>"] lead n
    by (simp add: Let_def)
qed

end
