(* ===== verification/Site.thy ===== *)
theory Site
  imports ApiCoherence Proxy Debug
begin

text \<open>
  The two tiers together, as \<open>src/docker-compose.yml\<close> runs them: the caching proxy of \<open>Proxy\<close> in front of the
  API server of \<open>Api\<close>. The requests are reads and updates of one product; they come through the proxy or,
  the API's port being open too, directly. The response is stored twice, as a product in the
  API's cache and as bytes in the proxy, and the two lifetimes add up.

  Shown here: a product that the proxy answers was in the database no more than ten minutes, and the time
  one forwarded request may take, before.
\<close>

section \<open>The API as the upstream of the proxy\<close>

text \<open>
  What the proxy's client may see of a request: it is delivered, it does not reach the server, it is handled and
  its response is lost, or the response breaks off.
\<close>

datatype delivery = Delivered | Lost | Unanswered | Truncated

text \<open>
  A site: the upstream URL of the proxy, the API server behind it and whether it has the debug routes, how a JSON body is decoded and encoded, what
  the server does with other requests, and the most time between the handling of a request and the
  storing of its response.
\<close>

record ('p, 's, 'f) site =
  site_URL :: string
  site_debug :: bool
  site_ca :: "('p, 's, 'f) CacheAside"
  site_decode :: "bytes \<Rightarrow> string + 'f ProductUpdateRequest"
  site_encode :: "'f httpBody \<Rightarrow> bytes"
  site_other :: "('p, 's) apiState upstream"
  site_latency :: duration

text \<open>Identifiers that stand for themselves in a URL.\<close>

definition plain_chars :: string where
  "plain_chars = ''abcdefghijklmnopqrstuvwxyzABCDEFGHIJKLMNOPQRSTUVWXYZ0123456789-_''"

definition plain_id :: "string \<Rightarrow> bool" where
  "plain_id pid \<longleftrightarrow> pid \<noteq> [] \<and> list_all (List.member plain_chars) pid"

text \<open>The routes for one product, and the decoding of the body of an update.\<close>

definition product_route :: "('p, 's, 'f) site \<Rightarrow> clock \<Rightarrow> upstreamRequest \<Rightarrow> 'f apiRequest option" where
  "product_route S clk q =
     (case api_route (site_debug S) (uq_Method q) (split_on CHR ''/'' (TrimPrefix (site_URL S @ ''/'') (uq_URL q))) of
        RouteGetProduct pid \<Rightarrow> if uq_Method q = ''GET'' \<and> plain_id pid then Some (ApiGet clk pid) else None
      | RouteUpdateProduct pid \<Rightarrow> if plain_id pid then Some (ApiPut clk pid (site_decode S (uq_Body q))) else None
      | _ \<Rightarrow> None)"

text \<open>The headers the handler sets; those that \<open>net/http\<close> adds, none of them \<open>Cache-Control\<close>, are left out.\<close>

definition wire_response :: "('f httpBody \<Rightarrow> bytes) \<Rightarrow> 'f responseWriter \<Rightarrow> httpResponse" where
  "wire_response encode w = \<lparr>hs_StatusCode = rw_status w,
     hs_Header = (\<lambda>k. case rw_header w k of None \<Rightarrow> [] | Some v \<Rightarrow> [v]), hs_Body = Some (encode (rw_body w))\<rparr>"

definition api_client :: "('p, 's, 'f) site \<Rightarrow> clock \<Rightarrow> delivery \<Rightarrow> ('p, 's) apiState upstream" where
  "api_client S clk del q s =
     (if del = Lost then (Inl ''connection refused'', s)
      else case product_route S clk q of
        None \<Rightarrow> site_other S q s
      | Some req \<Rightarrow> (case api_step (site_ca S) req s of
            None \<Rightarrow> (Inl ''EOF'', s)
          | Some (w, s') \<Rightarrow>
              (let resp = wire_response (site_encode S) w
               in case del of
                  Delivered \<Rightarrow> Inr resp
                | Truncated \<Rightarrow> Inr (resp\<lparr>hs_Body := None\<rparr>)
                | _ \<Rightarrow> Inl ''EOF'', s')))"

definition site_serve :: "('p, 's, 'f) site \<Rightarrow> clock \<Rightarrow> clock \<Rightarrow> delivery \<Rightarrow> httpRequest \<Rightarrow>
    ResponseStore \<times> ('p, 's) apiState \<Rightarrow> clientResponse \<times> ResponseStore \<times> ('p, 's) apiState" where
  "site_serve S clk aclk del r = ServeHTTP (site_URL S) (api_client S aclk del) clk r"

text \<open>A read or an update of the product \<open>pid\<close>.\<close>

definition product_exchange :: "string \<Rightarrow> httpRequest \<Rightarrow> bool" where
  "product_exchange pid r \<longleftrightarrow> hq_Method r \<in> {''GET'', ''PUT''} \<and> hq_URI r = ''/products/'' @ pid \<and> plain_id pid"

text \<open>
  The clocks of the proxy and of the server tell the same time; a request that begins after \<open>t\<close> and ends by \<open>t'\<close>
  is handled by the server between the second and the third look of the proxy at its clock.
\<close>

definition exchange_times :: "('p, 's, 'f) site \<Rightarrow> time \<Rightarrow> clock \<Rightarrow> clock \<Rightarrow> time \<Rightarrow> bool" where
  "exchange_times S t clk aclk t' \<longleftrightarrow> mono clk \<and> mono aclk \<and> t \<le> clk 0 \<and> clk 1 \<le> aclk 0 \<and> aclk 3 \<le> clk 2 \<and>
     clk 3 \<le> t' \<and> clk 3 \<le> aclk 0 + site_latency S"

inductive site_reach :: "('p, 's, 'f) site \<Rightarrow> time \<Rightarrow> ('p, 's) apiState \<Rightarrow> (time \<times> 's) list \<Rightarrow>
    ResponseStore \<times> ('p, 's) apiState \<Rightarrow> bool"
  for S t0 s0 where
  start: "site_reach S t0 s0 [(t0, api_db s0)] (NewResponseStore, s0)"
| direct: "site_reach S t0 s0 log (st, s) \<Longrightarrow> during req (fst (hd log)) t \<Longrightarrow> api_step (site_ca S) req s = Some (w, s') \<Longrightarrow>
    site_reach S t0 s0 ((t, api_db s') # log) (st, s')"
| proxied: "site_reach S t0 s0 log (st, s) \<Longrightarrow> exchange_times S (fst (hd log)) clk aclk t \<Longrightarrow> product_exchange pid r \<Longrightarrow>
    site_serve S clk aclk del r (st, s) = (resp, st', s') \<Longrightarrow>
    site_reach S t0 s0 ((t, api_db s') # log) (st', s')"

section \<open>Rows of the recent past\<close>

definition recently :: "('s \<Rightarrow> string \<rightharpoonup> 'f dbProduct) \<Rightarrow> (time \<times> 's) list \<Rightarrow> time \<Rightarrow> string \<Rightarrow> 'f httpBody \<Rightarrow> bool" where
  "recently tab log since pid b \<longleftrightarrow>
     (\<exists>(t, d)\<in>set log. since \<le> t \<and> (\<exists>q. tab d pid = Some q \<and> b = BodyProduct (dbToAPIProduct q)))"

lemma recently_mono:
  "recently tab log since pid b \<Longrightarrow> set log \<subseteq> set log' \<Longrightarrow> since' \<le> since \<Longrightarrow> recently tab log' since' pid b"
  unfolding recently_def by (elim bexE) (rule bexI, auto)

lemma recently_now: "tab d pid = Some q \<Longrightarrow> since \<le> t \<Longrightarrow> recently tab ((t, d) # log) since pid (BodyProduct (dbToAPIProduct q))"
  by (auto simp: recently_def)

lemma recently_fresh:
  assumes "fresh_in tab log pid p e" "\<not> expired_at now e"
  shows "recently tab log (now - defaultProductTTL) pid (BodyProduct p)"
proof -
  from assms(1) obtain t d q where "0 < e" "(t, d) \<in> set log" "e \<le> t + defaultProductTTL" "tab d pid = Some q" "p = dbToAPIProduct q"
    by (auto simp: fresh_in_def)
  moreover from this assms(2) have "now - defaultProductTTL \<le> t" by (simp add: expired_at_def)
  ultimately show ?thesis by (auto simp: recently_def)
qed

section \<open>The responses of the API\<close>

lemma h_GetProduct_no_cache_control: "h_GetProduct ca clk pid s = Some (w, s') \<Longrightarrow> rw_header w ''Cache-Control'' = None"
  by (auto simp: h_GetProduct_def writeError_def writeJSON_def header_Set_def newWriter_def xCacheHeader_def Let_def
      split: bind_splits sum.splits api_error.splits)

lemma h_UpdateProduct_no_cache_control:
  "h_UpdateProduct ca clk pid decoded s = Some (w, s') \<Longrightarrow> rw_header w ''Cache-Control'' = None"
  by (auto simp: h_UpdateProduct_def writeError_def writeJSON_def header_Set_def newWriter_def
      split: bind_splits sum.splits api_error.splits)

lemma update_invalidate_db: "update_invalidate ca clk pid p s = Some s' \<Longrightarrow> api_db s' = api_db s"
  by (auto simp: update_invalidate_def Let_def split: bind_splits)

context eviction_policy
begin

lemma ca_UpdateProduct_row:
  assumes "ca_UpdateProduct ca clk pid upd s = Some (Inr p, s')" "pg_ok (ca_pg ca) tab"
  shows "\<exists>q. tab (api_db s') pid = Some q \<and> p = dbToAPIProduct q"
proof -
  obtain x s1 where x: "update_write ca pid upd s = (x, s1)" by fastforce
  with assms(1) obtain q where q: "x = Inr q" "p = dbToAPIProduct q"
    "update_invalidate ca clk pid (dbToAPIProduct q) s1 = Some s'"
    by (cases x) (auto simp: ca_UpdateProduct_def Let_def split: bind_splits)
  from update_writeD [OF assms(2) x] q(1) have "tab (api_db s1) pid = Some q" by auto
  with q(2) update_invalidate_db [OF q(3)] show ?thesis by simp
qed

lemma h_UpdateProduct_row:
  assumes "h_UpdateProduct ca clk pid decoded s = Some (w, s')" "pg_ok (ca_pg ca) tab" "rw_status w < 300"
  shows "\<exists>q. tab (api_db s') pid = Some q \<and> rw_body w = BodyProduct (dbToAPIProduct q)"
proof (cases decoded)
  case (Inl e)
  with assms(1,3) show ?thesis by (auto simp: h_UpdateProduct_def writeError_def writeJSON_def)
next
  case (Inr upd)
  with assms(1,3) obtain p where "ca_UpdateProduct ca clk pid upd s = Some (Inr p, s')" "rw_body w = BodyProduct p"
    by (auto simp: h_UpdateProduct_def writeError_def writeJSON_def split: bind_splits sum.splits api_error.splits)
  with ca_UpdateProduct_row [OF _ assms(2)] show ?thesis by fastforce
qed

lemma h_GetProduct_reads:
  assumes "ca_policy ca = P" "cinv (api_cache s)" "mono clk" "json_ok (ca_json ca)" "pg_ok (ca_pg ca) tab"
    "h_GetProduct ca clk pid s = Some (w, s')"
  shows "tab (api_db s') = tab (api_db s)"
  using ca_GetProduct_ok [OF assms(1-5), of pid] assms(6) by (auto simp: h_GetProduct_def split: bind_splits)

text \<open>What the API answers to a read or an update of a product.\<close>

lemma product_response:
  assumes "ca_policy ca = P" "json_ok (ca_json ca)" "pg_ok (ca_pg ca) tab" "cinv (api_cache s)"
    "cached_ok (ca_json ca) (fresh_in tab log) (api_cache s)" "during req t0 t" "0 \<le> t0"
    and req: "req = ApiGet clk pid \<or> req = ApiPut clk pid decoded"
  shows "\<exists>w s'. api_step ca req s = Some (w, s') \<and> cinv (api_cache s') \<and>
    cached_ok (ca_json ca) (fresh_in tab ((t, api_db s') # log)) (api_cache s') \<and> rw_header w ''Cache-Control'' = None \<and>
    (rw_status w < 300 \<longrightarrow> rw_status w = 200 \<and>
       recently tab ((t, api_db s') # log) (clk 0 - defaultProductTTL) pid (rw_body w))"
proof -
  from api_step_fresh [OF assms(1-7)] obtain w s' where s': "api_step ca req s = Some (w, s')" "cinv (api_cache s')"
    "cached_ok (ca_json ca) (fresh_in tab ((t, api_db s') # log)) (api_cache s')"
    by blast
  have "rw_header w ''Cache-Control'' = None \<and> (rw_status w < 300 \<longrightarrow> rw_status w = 200 \<and>
       recently tab ((t, api_db s') # log) (clk 0 - defaultProductTTL) pid (rw_body w))"
    using req
  proof
    assume get: "req = ApiGet clk pid"
    then have w: "h_GetProduct ca clk pid s = Some (w, s')" using s'(1) by (simp add: api_step_def)
    from get assms(6) have clk: "mono clk" "clk 0 \<le> t"
      using mono_clockD [of clk 0 3] by (auto simp: during_def)
    from h_GetProduct_ok [OF assms(1,4) clk(1) assms(2,3), of pid] w have ok: "response_ok tab (ca_json ca) (clk 0) pid s w" by simp
    have "recently tab ((t, api_db s') # log) (clk 0 - defaultProductTTL) pid (rw_body w)" if "rw_status w = 200"
    proof -
      from ok that consider p v e where "rw_body w = BodyProduct p" "cache_view (api_cache s) (cacheKeyPrefix @ pid) = Some (v, e)"
          "json_Unmarshal (ca_json ca) v = Some p" "\<not> expired_at (clk 0) e"
        | q where "tab (api_db s) pid = Some q" "rw_body w = BodyProduct (dbToAPIProduct q)"
        by (auto simp: response_ok_def)
      then show ?thesis
      proof cases
        case 1
        from recently_fresh [OF cached_okD [OF assms(5) 1(2,3)] 1(4)] 1(1) show ?thesis by (auto intro: recently_mono)
      next
        case 2
        with h_GetProduct_reads [OF assms(1,4) clk(1) assms(2,3) w] clk(2) show ?thesis
          by (auto simp: defaultProductTTL_def intro: recently_now)
      qed
    qed
    with h_GetProduct_no_cache_control [OF w] ok show ?thesis by (auto simp: response_ok_def split: if_splits)
  next
    assume put: "req = ApiPut clk pid decoded"
    then have w: "h_UpdateProduct ca clk pid decoded s = Some (w, s')" using s'(1) by (simp add: api_step_def)
    from put assms(6) have clk: "clk 0 \<le> t" by (simp add: during_def)
    have "rw_status w < 300 \<longrightarrow> rw_status w = 200"
      using w by (auto simp: h_UpdateProduct_def writeError_def writeJSON_def split: bind_splits sum.splits api_error.splits)
    moreover have "clk 0 - defaultProductTTL \<le> t" using clk by (simp add: defaultProductTTL_def)
    ultimately show ?thesis
      using h_UpdateProduct_no_cache_control [OF w] h_UpdateProduct_row [OF w assms(3)] recently_now by fastforce
  qed
  with s' show ?thesis by blast
qed

end

section \<open>The proxy in front of the API\<close>

lemma plain_id_no_slash: "plain_id pid \<Longrightarrow> CHR ''/'' \<notin> set pid"
proof -
  have "CHR ''/'' \<notin> set plain_chars" by (simp add: plain_chars_def)
  then show "plain_id pid \<Longrightarrow> CHR ''/'' \<notin> set pid" by (auto simp: plain_id_def list_all_iff)
qed

lemma product_route_exchange:
  assumes "product_exchange pid r"
  shows "\<exists>req. product_route S clk \<lparr>uq_Method = hq_Method r, uq_URL = site_URL S @ hq_URI r, uq_Header = h, uq_Body = hq_Body r\<rparr> = Some req \<and>
    (req = ApiGet clk pid \<or> req = ApiPut clk pid (site_decode S (hq_Body r)))"
proof -
  have pid: "plain_id pid" "hq_URI r = ''/products/'' @ pid" "hq_Method r = ''GET'' \<or> hq_Method r = ''PUT''"
    using assms by (auto simp: product_exchange_def)
  have "CHR ''/'' \<notin> set pid" by (rule plain_id_no_slash [OF pid(1)])
  then have split: "split_on CHR ''/'' (''products'' @ CHR ''/'' # pid) = [''products'', pid]"
    by (subst split_on_append) (simp_all add: split_on_single)
  have trim: "TrimPrefix (site_URL S @ ''/'') (site_URL S @ hq_URI r) = ''products'' @ CHR ''/'' # pid"
    by (simp add: pid(2) TrimPrefix_def HasPrefix_iff)
  from pid(3) show ?thesis
    unfolding product_route_def upstreamRequest.simps trim split
    by (elim disjE) (simp_all add: pid(1) api_route_def api_routes_def route_method_def)
qed

text \<open>Every response in the store under the path of a product has a body that was a row of that product.\<close>

definition staleness :: "('p, 's, 'f) site \<Rightarrow> duration" where
  "staleness S = defaultProductTTL + defaultCacheTTL + site_latency S"

definition store_recent :: "('p, 's, 'f) site \<Rightarrow> ('s \<Rightarrow> string \<rightharpoonup> 'f dbProduct) \<Rightarrow> (time \<times> 's) list \<Rightarrow> ResponseStore \<Rightarrow> bool" where
  "store_recent S tab log st \<longleftrightarrow> (\<forall>pid e. Mapping.lookup st (''/products/'' @ pid) = Some e \<longrightarrow> 0 < cr_ExpiresAt e \<and>
     (\<exists>b. cr_Body e = site_encode S b \<and> recently tab log (cr_ExpiresAt e - staleness S) pid b))"

lemma store_recentD:
  assumes "store_recent S tab log st" "Mapping.lookup st (''/products/'' @ pid) = Some e"
  shows "0 < cr_ExpiresAt e" "\<exists>b. cr_Body e = site_encode S b \<and> recently tab log (cr_ExpiresAt e - staleness S) pid b"
  using assms by (simp_all add: store_recent_def)

lemma store_recent_empty: "store_recent S tab log NewResponseStore"
  by (simp add: store_recent_def NewResponseStore_def)

lemma store_recent_Cons: "store_recent S tab log st \<Longrightarrow> store_recent S tab (x # log) st"
  unfolding store_recent_def by (meson order_refl recently_mono set_subset_Cons)

text \<open>An answer that the client of the proxy reads to its end.\<close>

definition answer_recent :: "('p, 's, 'f) site \<Rightarrow> ('s \<Rightarrow> string \<rightharpoonup> 'f dbProduct) \<Rightarrow> (time \<times> 's) list \<Rightarrow> time \<Rightarrow> string \<Rightarrow>
    string + httpResponse \<Rightarrow> bool" where
  "answer_recent S tab log since pid x \<longleftrightarrow> (\<forall>resp body. x = Inr resp \<longrightarrow> hs_Body resp = Some body \<longrightarrow>
     hdr_Get ''Cache-Control'' (hs_Header resp) = '''' \<and>
     (hs_StatusCode resp < 300 \<longrightarrow> (\<exists>b. body = site_encode S b \<and> recently tab log since pid b)))"

lemma stored_answer_recent:
  assumes "store_recent S tab log st" "answer_recent S tab log (aclk 0 - defaultProductTTL) pid x"
    and "fst (forwardToUpstream (site_URL S) client r s) = x" "hq_URI r = ''/products/'' @ pid"
    and "mono clk" "0 < clk 0" "clk 3 \<le> aclk 0 + site_latency S"
    and serve: "ServeHTTP (site_URL S) client clk r (st, s) = (w, st', s')"
  shows "store_recent S tab log st'"
  unfolding store_recent_def
proof (intro allI impI)
  fix pid' e assume e: "Mapping.lookup st' (''/products/'' @ pid') = Some e"
  with serve have "Mapping.lookup (fst (snd (ServeHTTP (site_URL S) client clk r (st, s)))) (''/products/'' @ pid') = Some e" by simp
  from ServeHTTP_store [OF assms(5) this]
  show "0 < cr_ExpiresAt e \<and> (\<exists>b. cr_Body e = site_encode S b \<and> recently tab log (cr_ExpiresAt e - staleness S) pid' b)"
  proof
    assume "Mapping.lookup st (''/products/'' @ pid') = Some e"
    with assms(1) show ?thesis by (simp add: store_recent_def)
  next
    assume "\<exists>resp body. answered (site_URL S) client clk r (st, s) = [(clk 3, r, resp, body)] \<and> ''/products/'' @ pid' = hq_URI r \<and>
       cacheable resp \<and> e = \<lparr>cr_StatusCode = hs_StatusCode resp, cr_Headers = hs_Header resp, cr_Body = body, cr_CachedAt = clk 2,
            cr_ExpiresAt = (if lifetime resp > 0 then clk 3 + lifetime resp else 0)\<rparr>"
    then obtain resp body where new: "answered (site_URL S) client clk r (st, s) = [(clk 3, r, resp, body)]" "pid' = pid" "cacheable resp"
      "cr_Body e = body" "cr_ExpiresAt e = (if lifetime resp > 0 then clk 3 + lifetime resp else 0)"
      using assms(4) by auto
    from new(1) assms(3) have x: "x = Inr resp" "hs_Body resp = Some body"
      by (auto simp: answered_def split: option.splits sum.splits)
    with assms(2) have hdr: "hdr_Get ''Cache-Control'' (hs_Header resp) = ''''" by (simp add: answer_recent_def)
    then have "lifetime resp = defaultCacheTTL" by (simp add: lifetime_def parseCacheControl_def)
    with new(5) have exp: "cr_ExpiresAt e = clk 3 + defaultCacheTTL" by (simp add: defaultCacheTTL_def)
    from x assms(2) new(3) obtain b where b: "body = site_encode S b" "recently tab log (aclk 0 - defaultProductTTL) pid b"
      by (auto simp: answer_recent_def cacheable_def)
    have "recently tab log (cr_ExpiresAt e - staleness S) pid b"
      by (rule recently_mono [OF b(2)]) (use exp assms(7) in \<open>simp_all add: staleness_def\<close>)
    moreover have "0 < cr_ExpiresAt e" using exp mono_clockD [OF assms(5), of 0 3] assms(6) by (simp add: defaultCacheTTL_def)
    ultimately show ?thesis using new(2,4) b(1) by blast
  qed
qed

lemma replayed_answer_recent:
  assumes "store_recent S tab log st" "fst (store_Get clk (''/products/'' @ pid) st) = Some e"
  shows "\<exists>b. cr_Body e = site_encode S b \<and> recently tab log (clk 0 - staleness S) pid b"
proof -
  from assms(2) have e: "Mapping.lookup st (''/products/'' @ pid) = Some e" "\<not> response_IsExpired e (clk 0)"
    using store_Get_hit by blast+
  from store_recentD [OF assms(1) e(1)] obtain b where b: "0 < cr_ExpiresAt e" "cr_Body e = site_encode S b"
    "recently tab log (cr_ExpiresAt e - staleness S) pid b" by blast
  have "recently tab log (clk 0 - staleness S) pid b"
    by (rule recently_mono [OF b(3)]) (use b(1) e(2) in \<open>simp_all add: response_IsExpired_def\<close>)
  with b(2) show ?thesis by blast
qed

lemma forwarded_answer_recent:
  assumes "answer_recent S tab log (aclk 0 - defaultProductTTL) pid x" "forwardToUpstream (site_URL S) client r s = (x, u)"
    and "fst (store_Get clk (hq_URI r) st) = None" "mono clk" "clk 1 \<le> aclk 0" "clk 3 \<le> aclk 0 + site_latency S"
    and serve: "ServeHTTP (site_URL S) client clk r (st, s) = (w, st', s')" "cl_Status w = 200"
  shows "\<exists>b. cl_Body w = site_encode S b \<and> recently tab log (clk 0 - staleness S) pid b"
proof -
  obtain st1 where get: "store_Get clk (hq_URI r) st = (None, st1)" using assms(3) by (metis prod.collapse)
  have "store_Get (later 2 clk) (hq_URI r) st1 = (None, st1)" by (rule store_Get_miss_again [OF assms(4) get])
  with serve get assms(2) obtain resp body where
    x: "x = Inr resp" "hs_Body resp = Some body" "cl_Body w = body" "hs_StatusCode resp = 200"
    by (auto simp: ServeHTTP_def http_Error_def Let_def split: sum.splits option.splits)
  with assms(1) obtain b where b: "body = site_encode S b" "recently tab log (aclk 0 - defaultProductTTL) pid b"
    by (auto simp: answer_recent_def)
  have "recently tab log (clk 0 - staleness S) pid b"
    by (rule recently_mono [OF b(2)])
      (use mono_clockD [OF assms(4), of 0 1] mono_clockD [OF assms(4), of 1 3] assms(5,6) in \<open>simp_all add: staleness_def defaultCacheTTL_def\<close>)
  with x(3) b(1) show ?thesis by blast
qed

context eviction_policy
begin

lemma api_client_ok:
  assumes "ca_policy (site_ca S) = P" "json_ok (ca_json (site_ca S))" "pg_ok (ca_pg (site_ca S)) tab" "cinv (api_cache s)"
    "cached_ok (ca_json (site_ca S)) (fresh_in tab log) (api_cache s)" "exchange_times S t0 clk aclk t" "0 \<le> t0" "product_exchange pid r"
  shows "\<exists>x s'. forwardToUpstream (site_URL S) (api_client S aclk del) r s = (x, s') \<and> cinv (api_cache s') \<and>
    cached_ok (ca_json (site_ca S)) (fresh_in tab ((t, api_db s') # log)) (api_cache s') \<and>
    answer_recent S tab ((t, api_db s') # log) (aclk 0 - defaultProductTTL) pid x"
proof (cases "del = Lost")
  case True
  have "cached_ok (ca_json (site_ca S)) (fresh_in tab ((t, api_db s) # log)) (api_cache s)"
    by (rule cached_ok_mono [OF assms(5)]) (rule fresh_in_Cons)
  with True assms(4) show ?thesis by (simp add: forwardToUpstream_def api_client_def answer_recent_def)
next
  case False
  from product_route_exchange [OF assms(8), of S aclk "copyHeaders (\<lambda>_. []) (hq_Header r)"] obtain req where
    req: "product_route S aclk \<lparr>uq_Method = hq_Method r, uq_URL = site_URL S @ hq_URI r,
       uq_Header = copyHeaders (\<lambda>_. []) (hq_Header r), uq_Body = hq_Body r\<rparr> = Some req"
    "req = ApiGet aclk pid \<or> req = ApiPut aclk pid (site_decode S (hq_Body r))"
    by blast
  have times: "mono clk" "mono aclk" "t0 \<le> clk 0" "clk 1 \<le> aclk 0" "aclk 3 \<le> clk 2" "clk 3 \<le> t"
    using assms(6) by (simp_all add: exchange_times_def)
  have "t0 \<le> aclk 0" "aclk 0 \<le> aclk 3" "aclk 3 \<le> t"
    using times mono_clockD [of clk 0 1] mono_clockD [of aclk 0 3] mono_clockD [of clk 2 3] by simp_all
  then have "during req t0 t" using req(2) times(2) by (auto simp: during_def)
  from product_response [OF assms(1-5) this assms(7) req(2)] obtain w s' where w: "api_step (site_ca S) req s = Some (w, s')"
    "cinv (api_cache s')" "cached_ok (ca_json (site_ca S)) (fresh_in tab ((t, api_db s') # log)) (api_cache s')"
    "rw_header w ''Cache-Control'' = None"
    "rw_status w < 300 \<longrightarrow> recently tab ((t, api_db s') # log) (aclk 0 - defaultProductTTL) pid (rw_body w)"
    by blast
  have "answer_recent S tab ((t, api_db s') # log) (aclk 0 - defaultProductTTL) pid (Inr (wire_response (site_encode S) w))"
    using w(4,5) by (auto simp: answer_recent_def wire_response_def hdr_Get_def)
  then show ?thesis
    using False req(1) w(1-3) by (cases del) (auto simp: forwardToUpstream_def api_client_def answer_recent_def)
qed

lemma site_serve_ok:
  assumes "ca_policy (site_ca S) = P" "json_ok (ca_json (site_ca S))" "pg_ok (ca_pg (site_ca S)) tab" "cinv (api_cache s)"
    "cached_ok (ca_json (site_ca S)) (fresh_in tab log) (api_cache s)" "exchange_times S t0 clk aclk t" "0 < t0" "product_exchange pid r"
    "store_recent S tab log st"
  shows "\<exists>w st' s'. site_serve S clk aclk del r (st, s) = (w, st', s') \<and> cinv (api_cache s') \<and>
    cached_ok (ca_json (site_ca S)) (fresh_in tab ((t, api_db s') # log)) (api_cache s') \<and>
    store_recent S tab ((t, api_db s') # log) st' \<and>
    (cl_Status w = 200 \<longrightarrow> (\<exists>b. cl_Body w = site_encode S b \<and> recently tab ((t, api_db s') # log) (clk 0 - staleness S) pid b))"
proof (cases "site_serve S clk aclk del r (st, s)")
  case (fields w st' s')
  have times: "mono clk" "0 < clk 0" "clk 1 \<le> aclk 0" "clk 3 \<le> aclk 0 + site_latency S"
    using assms(6,7) by (simp_all add: exchange_times_def)
  from assms(7) have "0 \<le> t0" by simp
  from api_client_ok [OF assms(1-6) this assms(8), of del] obtain x u where
    x: "forwardToUpstream (site_URL S) (api_client S aclk del) r s = (x, u)" "cinv (api_cache u)"
    "cached_ok (ca_json (site_ca S)) (fresh_in tab ((t, api_db u) # log)) (api_cache u)"
    "answer_recent S tab ((t, api_db u) # log) (aclk 0 - defaultProductTTL) pid x"
    by blast
  have serve: "ServeHTTP (site_URL S) (api_client S aclk del) clk r (st, s) = (w, st', s')" using fields by (simp add: site_serve_def)
  have uri: "hq_URI r = ''/products/'' @ pid" using assms(8) by (simp add: product_exchange_def)
  note kept = store_recent_Cons [OF assms(9)]
  show ?thesis
  proof (cases "fst (store_Get clk (hq_URI r) st)")
    case (Some e)
    then have e: "Mapping.lookup st (hq_URI r) = Some e" "\<not> response_IsExpired e (clk 0)" using store_Get_hit by blast+
    from serve ServeHTTP_hit [where clk = clk and url = "site_URL S" and client = "api_client S aclk del" and u = s, OF e] have s': "w = serveCached e" "st' = st" "s' = s" by simp_all
    have "cached_ok (ca_json (site_ca S)) (fresh_in tab ((t, api_db s) # log)) (api_cache s)"
      by (rule cached_ok_mono [OF assms(5)]) (rule fresh_in_Cons)
    with s' fields assms(4) kept replayed_answer_recent [OF kept Some [unfolded uri]] show ?thesis by (simp add: serveCached_def)
  next
    case None
    then have "s' = u" using serve x(1) by (auto simp: ServeHTTP_def Let_def split: prod.splits sum.splits option.splits)
    with fields x(2,3) stored_answer_recent [where aclk = aclk and clk = clk, OF kept x(4) _ uri times(1,2,4) serve]
      forwarded_answer_recent [where aclk = aclk and clk = clk, OF x(4,1) None times(1,3,4) serve] show ?thesis by (simp add: x(1))
  qed
qed

lemma site_reach_recent:
  assumes "site_reach S t0 s0 log u" "ca_policy (site_ca S) = P" "json_ok (ca_json (site_ca S))" "pg_ok (ca_pg (site_ca S)) tab"
    "cinv (api_cache s0)" "cached_ok (ca_json (site_ca S)) (\<lambda>_ _ _. False) (api_cache s0)" "0 < t0"
  shows "cinv (api_cache (snd u)) \<and> cached_ok (ca_json (site_ca S)) (fresh_in tab log) (api_cache (snd u)) \<and>
    store_recent S tab log (fst u) \<and> 0 < fst (hd log)"
  using assms(1)
proof induction
  case start
  have "cached_ok (ca_json (site_ca S)) (fresh_in tab [(t0, api_db s0)]) (api_cache s0)"
    by (rule cached_ok_mono [OF assms(6)]) simp
  with assms(5,7) show ?case by (simp add: store_recent_empty)
next
  case (direct log st s req t w s')
  then have "0 \<le> fst (hd log)" by simp
  from api_step_fresh [OF assms(2-4), of s log req "fst (hd log)" t] direct this have
    "cinv (api_cache s')" "cached_ok (ca_json (site_ca S)) (fresh_in tab ((t, api_db s') # log)) (api_cache s')" by auto
  moreover have "fst (hd log) \<le> t" using direct(2) by (simp add: during_def)
  ultimately show ?case using direct(4) by (simp add: store_recent_Cons)
next
  case (proxied log st s clk aclk t pid r del resp st' s')
  from site_serve_ok [OF assms(2-4), of s log "fst (hd log)" clk aclk t pid r st del] proxied have
    "cinv (api_cache s')" "cached_ok (ca_json (site_ca S)) (fresh_in tab ((t, api_db s') # log)) (api_cache s')"
    "store_recent S tab ((t, api_db s') # log) st'" by auto
  moreover have "0 < t"
    using proxied mono_clockD [of clk 0 3] by (auto simp: exchange_times_def)
  ultimately show ?case by simp
qed

end

section \<open>A site for examples\<close>

definition lamp_site :: "(evictionPolicy, string \<rightharpoonup> int dbProduct, int) site" where
  "lamp_site = \<lparr>site_URL = ''http://api:8081'', site_debug = False, site_ca = lamp_api StrategyTTL, site_decode = (\<lambda>_. Inr lower_price),
     site_encode = (\<lambda>b. case b of BodyProduct p \<Rightarrow> if p = dbToAPIProduct lamp then ''lamp'' else ''cheap'' | _ \<Rightarrow> ''error''),
     site_other = (\<lambda>_ s. (Inl ''unexpected'', s)), site_latency = Second\<rparr>"

lemma lamp_site_ca: "site_ca lamp_site = lamp_api StrategyTTL" "0 \<le> site_latency lamp_site"
  by (simp_all add: lamp_site_def)

lemma lamp_exchange: "product_exchange ''p1'' (page_request ''GET'')"
  by code_simp

section \<open>Properties\<close>

text \<open>C11. Through both tiers nothing is older than ten minutes and one forwarded request: after every run of reads and
  updates, direct or through the proxy, with any strategy and any loss of requests and responses, a product that the
  proxy answers with status 200 was the row of the database at the end of a request, this one included, or at the start,
  no more than the two lifetimes and the latency before.\<close>

theorem proxied_product_is_recent:
  assumes "ca_policy (site_ca S) = policies" "json_ok (ca_json (site_ca S))" "pg_ok (ca_pg (site_ca S)) tab" "0 < t0"
    and "site_reach S t0 (api_start cap (buildEvictionPolicy draws name) d0) log (st, s)"
    and "exchange_times S (fst (hd log)) clk aclk t'" "product_exchange pid r"
  shows "\<exists>w st' s'. site_serve S clk aclk del r (st, s) = (w, st', s') \<and>
    (cl_Status w = 200 \<longrightarrow> (\<exists>t d q. (t, d) \<in> set ((t', api_db s') # log) \<and> clk 0 - (10 * 60 * Second + site_latency S) \<le> t \<and>
       tab d pid = Some q \<and> cl_Body w = site_encode S (BodyProduct (dbToAPIProduct q))))"
proof -
  let ?s0 = "api_start cap (buildEvictionPolicy draws name) d0"
  have "any.cinv (api_cache ?s0)" "cached_ok (ca_json (site_ca S)) (\<lambda>_ _ _. False) (api_cache ?s0)"
    using cache_inv_built cached_ok_New by (simp_all add: api_start_def)
  from any.site_reach_recent [OF assms(5,1-3) this assms(4)] have inv: "any.cinv (api_cache s)"
    "cached_ok (ca_json (site_ca S)) (fresh_in tab log) (api_cache s)" "store_recent S tab log st" "0 < fst (hd log)" by simp_all
  from any.site_serve_ok [OF assms(1-3) inv(1,2) assms(6) inv(4) assms(7) inv(3), of del] obtain w st' s' where
    w: "site_serve S clk aclk del r (st, s) = (w, st', s')"
    "cl_Status w = 200 \<longrightarrow> (\<exists>b. cl_Body w = site_encode S b \<and> recently tab ((t', api_db s') # log) (clk 0 - staleness S) pid b)"
    by blast
  have "staleness S = 10 * 60 * Second + site_latency S"
    by (simp add: staleness_def defaultProductTTL_def defaultCacheTTL_def)
  with w show ?thesis by (fastforce simp: recently_def)
qed

theorem proxied_product_is_recent_witness:
  "\<exists>log st s w st' s'. site_reach lamp_site 1 lamp_start log (st, s) \<and> api_db s ''p1'' = Some cheap_lamp \<and>
    site_serve lamp_site (\<lambda>_. 9) (\<lambda>_. 9) Delivered (page_request ''GET'') (st, s) = (w, st', s') \<and> cl_Status w = 200 \<and> cl_Body w = ''lamp'' \<and>
    (\<exists>t d q. (t, d) \<in> set ((9, api_db s') # log) \<and> 9 - (10 * 60 * Second + site_latency lamp_site) \<le> t \<and>
       d ''p1'' = Some q \<and> cl_Body w = site_encode lamp_site (BodyProduct (dbToAPIProduct q)))"
proof -
  let ?get = "\<lambda>t. site_serve lamp_site (\<lambda>_. t) (\<lambda>_. t) Delivered (page_request ''GET'')" and ?put = "ApiPut (\<lambda>_. 6) ''p1'' (Inr lower_price)"
  have "(case ?get 2 (NewResponseStore, lamp_start) of (_, st1, s1) \<Rightarrow> do {
      (w2, s2) \<leftarrow> api_step (site_ca lamp_site) ?put s1;
      (case ?get 9 (st1, s2) of (w3, _) \<Rightarrow> Some (cl_Status w3, cl_Body w3, api_db s2 ''p1'')) }) = Some (200, ''lamp'', Some cheap_lamp)"
    by code_simp
  then obtain w1 st1 s1 w2 s2 w3 st3 s3 where steps: "?get 2 (NewResponseStore, lamp_start) = (w1, st1, s1)"
    "api_step (site_ca lamp_site) ?put s1 = Some (w2, s2)" "?get 9 (st1, s2) = (w3, st3, s3)"
    "cl_Status w3 = 200" "cl_Body w3 = ''lamp''" "api_db s2 ''p1'' = Some cheap_lamp"
    by (auto split: bind_splits prod.splits)
  have "site_reach lamp_site 1 lamp_start [(6, api_db s2), (5, api_db s1), (1, api_db lamp_start)] (st1, s2)"
    by (rule site_reach.direct [OF site_reach.proxied [OF site_reach.start _ lamp_exchange steps(1)] _ steps(2)])
      (simp_all add: during_def exchange_times_def mono_def lamp_site_def)
  then obtain log where log: "site_reach lamp_site 1 lamp_start log (st1, s2)" "fst (hd log) \<le> 9" by force
  from proxied_product_is_recent [where tab = "\<lambda>s. s" and t' = 9 and del = Delivered and clk = "\<lambda>_. 9" and aclk = "\<lambda>_. 9",
      OF _ _ _ _ log(1) [unfolded lamp_start_def] _ lamp_exchange] log(2) steps(3,4)
  have "\<exists>t d q. (t, d) \<in> set ((9, api_db s3) # log) \<and> 9 - (10 * 60 * Second + site_latency lamp_site) \<le> t \<and>
       d ''p1'' = Some q \<and> cl_Body w3 = site_encode lamp_site (BodyProduct (dbToAPIProduct q))"
    by (simp add: lamp_site_ca lamp_api_def lamp_json_ok memory_pg_ok mono_def exchange_times_def)
  with log(1) steps(3-6) show ?thesis by blast
qed

end
