(* ===== verification/PrefixCache.thy ===== *)
theory PrefixCache
  imports GoStrings
begin

text \<open>
  The LLM prefix cache of \<open>src/internal/llm\<close>: the model catalogue and its cost formulas (\<open>models.go\<close>) and
  the cache (\<open>prefix_cache.go\<close>). Arithmetic on \<open>float64\<close> is a parameter, a record of operations, so
  what is shown holds for floating-point numbers as they are. SHA-256 is a parameter too.
\<close>

section \<open>Floating-point numbers\<close>

text \<open>\<open>fl m k\<close> is the \<open>float64\<close> nearest to \<open>m\<close> divided by \<open>10^k\<close>; \<open>fl n 0\<close> converts an integer.\<close>

record 'f float64 =
  fl :: "int \<Rightarrow> nat \<Rightarrow> 'f"
  fadd :: "'f \<Rightarrow> 'f \<Rightarrow> 'f"
  fsub :: "'f \<Rightarrow> 'f \<Rightarrow> 'f"
  fmul :: "'f \<Rightarrow> 'f \<Rightarrow> 'f"
  fdiv :: "'f \<Rightarrow> 'f \<Rightarrow> 'f"
  flt :: "'f \<Rightarrow> 'f \<Rightarrow> bool"

section \<open>The code: models\<close>

record 'f ModelConfig =
  mc_Name :: string
  mc_NumLayers :: int
  mc_NumKVHeads :: int
  mc_NumQHeads :: int
  mc_HeadDim :: int
  mc_MaxContextLen :: int
  mc_ParamsBillion :: 'f

definition KVCacheSizePerToken :: "'f ModelConfig \<Rightarrow> int" where
  "KVCacheSizePerToken m = int64 (2 * mc_NumKVHeads m * mc_HeadDim m * 2 * mc_NumLayers m)"

definition AttentionFLOPs :: "'f float64 \<Rightarrow> 'f ModelConfig \<Rightarrow> int \<Rightarrow> 'f" where
  "AttentionFLOPs F m seqLen =
     (let flopsPerLayer = fmul F (fmul F (fmul F (fmul F (fl F 4 0) (fl F (mc_NumQHeads m) 0)) (fl F (mc_HeadDim m) 0))
            (fl F seqLen 0)) (fl F seqLen 0)
      in fmul F flopsPerLayer (fl F (mc_NumLayers m) 0))"

definition AttentionTFLOPs :: "'f float64 \<Rightarrow> 'f ModelConfig \<Rightarrow> int \<Rightarrow> 'f" where
  "AttentionTFLOPs F m seqLen = fdiv F (AttentionFLOPs F m seqLen) (fl F 1000000000000 0)"

definition CostUSD :: "'f float64 \<Rightarrow> 'f ModelConfig \<Rightarrow> int \<Rightarrow> 'f" where
  "CostUSD F m seqLen =
     (let h100TFLOPsPerSec = fl F 312 0; h100HourlyCost = fl F 250 2;
          tflops = AttentionTFLOPs F m seqLen;
          secondsCost = fdiv F tflops h100TFLOPsPerSec;
          hourlyCost = fdiv F secondsCost (fl F 3600 0)
      in fmul F hourlyCost h100HourlyCost)"

definition Llama3_8B :: "'f float64 \<Rightarrow> 'f ModelConfig" where
  "Llama3_8B F = \<lparr>mc_Name = ''Llama-3-8B'', mc_NumLayers = 32, mc_NumKVHeads = 8, mc_NumQHeads = 32, mc_HeadDim = 128,
     mc_MaxContextLen = 8192, mc_ParamsBillion = fl F 80 1\<rparr>"

definition Llama3_70B :: "'f float64 \<Rightarrow> 'f ModelConfig" where
  "Llama3_70B F = \<lparr>mc_Name = ''Llama-3-70B'', mc_NumLayers = 80, mc_NumKVHeads = 8, mc_NumQHeads = 64, mc_HeadDim = 128,
     mc_MaxContextLen = 8192, mc_ParamsBillion = fl F 700 1\<rparr>"

definition Mistral7B :: "'f float64 \<Rightarrow> 'f ModelConfig" where
  "Mistral7B F = \<lparr>mc_Name = ''Mistral-7B'', mc_NumLayers = 32, mc_NumKVHeads = 8, mc_NumQHeads = 32, mc_HeadDim = 128,
     mc_MaxContextLen = 32768, mc_ParamsBillion = fl F 70 1\<rparr>"

definition Mixtral8x7B :: "'f float64 \<Rightarrow> 'f ModelConfig" where
  "Mixtral8x7B F = \<lparr>mc_Name = ''Mixtral-8x7B'', mc_NumLayers = 32, mc_NumKVHeads = 8, mc_NumQHeads = 32, mc_HeadDim = 128,
     mc_MaxContextLen = 32768, mc_ParamsBillion = fl F 467 1\<rparr>"

definition Qwen2_5_72B :: "'f float64 \<Rightarrow> 'f ModelConfig" where
  "Qwen2_5_72B F = \<lparr>mc_Name = ''Qwen2.5-72B'', mc_NumLayers = 80, mc_NumKVHeads = 8, mc_NumQHeads = 64, mc_HeadDim = 128,
     mc_MaxContextLen = 131072, mc_ParamsBillion = fl F 720 1\<rparr>"

definition DeepSeekR1 :: "'f float64 \<Rightarrow> 'f ModelConfig" where
  "DeepSeekR1 F = \<lparr>mc_Name = ''DeepSeek-R1-671B'', mc_NumLayers = 61, mc_NumKVHeads = 128, mc_NumQHeads = 128, mc_HeadDim = 128,
     mc_MaxContextLen = 131072, mc_ParamsBillion = fl F 6710 1\<rparr>"

definition AllModels :: "'f float64 \<Rightarrow> 'f ModelConfig list" where
  "AllModels F = [Llama3_8B F, Llama3_70B F, Mistral7B F, Mixtral8x7B F, Qwen2_5_72B F, DeepSeekR1 F]"

section \<open>The code: the prefix cache\<close>

record 'f PrefixCacheEntry =
  pe_PrefixHash :: string
  pe_Model :: string
  pe_TokenCount :: int
  pe_TFLOPsCost :: 'f
  pe_CostUSD :: 'f
  pe_HitCount :: int
  pe_CachedAt :: time
  pe_LastAccessedAt :: time

definition SavedTFLOPs :: "'f float64 \<Rightarrow> 'f PrefixCacheEntry \<Rightarrow> 'f" where
  "SavedTFLOPs F e = fmul F (pe_TFLOPsCost e) (fl F (pe_HitCount e) 0)"

definition SavedUSD :: "'f float64 \<Rightarrow> 'f PrefixCacheEntry \<Rightarrow> 'f" where
  "SavedUSD F e = fmul F (pe_CostUSD e) (fl F (pe_HitCount e) 0)"

text \<open>The entries are reached through the map only, so the map holds them rather than pointers.\<close>

record 'f PrefixCache =
  pc_entries :: "(string, 'f PrefixCacheEntry) mapping"
  pc_maxSize :: int
  pc_totalRequests :: int
  pc_cacheHits :: int
  pc_totalSavedTFLOPs :: 'f
  pc_totalSavedUSD :: 'f

definition NewPrefixCache :: "'f float64 \<Rightarrow> int \<Rightarrow> 'f PrefixCache" where
  "NewPrefixCache F maxSize = \<lparr>pc_entries = Mapping.empty, pc_maxSize = maxSize, pc_totalRequests = 0, pc_cacheHits = 0,
     pc_totalSavedTFLOPs = fl F 0 0, pc_totalSavedUSD = fl F 0 0\<rparr>"

text \<open>\<open>json.Marshal\<close> of a list of integers.\<close>

definition json_ints :: "int list \<Rightarrow> string" where
  "json_ints is = ''['' @ join_with CHR '','' (map decimal_int is) @ '']''"

text \<open>\<open>encoding/hex\<close>.\<close>

definition hex_digit :: "nat \<Rightarrow> char" where
  "hex_digit n = (if n < 10 then char_of (48 + n) else char_of (87 + n))"

definition EncodeToString :: "bytes \<Rightarrow> string" where
  "EncodeToString bs = concat (map (\<lambda>b. [hex_digit (of_char b div 16), hex_digit (of_char b mod 16)]) bs)"

definition HashPrefix :: "(bytes \<Rightarrow> bytes) \<Rightarrow> int list \<Rightarrow> string" where
  "HashPrefix Sum256 toks = EncodeToString (take 16 (Sum256 (json_ints toks)))"

definition prefix_Lookup :: "'f float64 \<Rightarrow> time \<Rightarrow> string \<Rightarrow> 'f PrefixCache \<Rightarrow> 'f PrefixCacheEntry option \<times> 'f PrefixCache" where
  "prefix_Lookup F now prefixHash pc =
     (let pc = pc\<lparr>pc_totalRequests := int64 (pc_totalRequests pc + 1)\<rparr>
      in case Mapping.lookup (pc_entries pc) prefixHash of
           None \<Rightarrow> (None, pc)
         | Some entry \<Rightarrow>
             let entry = entry\<lparr>pe_HitCount := int64 (pe_HitCount entry + 1), pe_LastAccessedAt := now\<rparr>
             in (Some entry, pc\<lparr>pc_entries := Mapping.update prefixHash entry (pc_entries pc),
                  pc_cacheHits := int64 (pc_cacheHits pc + 1),
                  pc_totalSavedTFLOPs := fadd F (pc_totalSavedTFLOPs pc) (pe_TFLOPsCost entry),
                  pc_totalSavedUSD := fadd F (pc_totalSavedUSD pc) (pe_CostUSD entry)\<rparr>))"

text \<open>
  The scan for the oldest entry, over the keys in the order in which the map happens to be
  iterated. An empty \<open>oldestKey\<close> means that there is none yet.
\<close>

definition older :: "(string, 'f PrefixCacheEntry) mapping \<Rightarrow> string \<times> time \<Rightarrow> string \<Rightarrow> string \<times> time" where
  "older es best k = (case Mapping.lookup es k of
     None \<Rightarrow> best
   | Some e \<Rightarrow> if fst best = '''' \<or> Before (pe_LastAccessedAt e) (snd best) then (k, pe_LastAccessedAt e) else best)"

definition oldest_key :: "(string, 'f PrefixCacheEntry) mapping \<Rightarrow> string list \<Rightarrow> string" where
  "oldest_key es order = fst (foldl (older es) ('''', 0) order)"

definition prefix_Store :: "string list \<Rightarrow> 'f PrefixCacheEntry \<Rightarrow> 'f PrefixCache \<Rightarrow> 'f PrefixCache" where
  "prefix_Store order entry pc =
     (let es = (if int (Mapping.size (pc_entries pc)) \<ge> pc_maxSize pc
                then Mapping.delete (oldest_key (pc_entries pc) order) (pc_entries pc) else pc_entries pc)
      in pc\<lparr>pc_entries := Mapping.update (pe_PrefixHash entry) entry es\<rparr>)"

record 'f CacheStats =
  st_TotalRequests :: int
  st_CacheHits :: int
  st_CacheMisses :: int
  st_HitRate :: 'f
  st_EntriesStored :: int
  st_TotalSavedTFLOPs :: 'f
  st_TotalSavedUSD :: 'f

definition prefix_Stats :: "'f float64 \<Rightarrow> 'f PrefixCache \<Rightarrow> 'f CacheStats" where
  "prefix_Stats F pc =
     (let hitRate = (if pc_totalRequests pc > 0
            then fmul F (fdiv F (fl F (pc_cacheHits pc) 0) (fl F (pc_totalRequests pc) 0)) (fl F 100 0) else fl F 0 0)
      in \<lparr>st_TotalRequests = pc_totalRequests pc, st_CacheHits = pc_cacheHits pc,
          st_CacheMisses = int64 (pc_totalRequests pc - pc_cacheHits pc), st_HitRate = hitRate,
          st_EntriesStored = int (Mapping.size (pc_entries pc)), st_TotalSavedTFLOPs = pc_totalSavedTFLOPs pc,
          st_TotalSavedUSD = pc_totalSavedUSD pc\<rparr>)"

definition NewEntryForPrefix :: "'f float64 \<Rightarrow> (bytes \<Rightarrow> bytes) \<Rightarrow> clock \<Rightarrow> int list \<Rightarrow> 'f ModelConfig \<Rightarrow> 'f PrefixCacheEntry" where
  "NewEntryForPrefix F Sum256 clk toks model =
     \<lparr>pe_PrefixHash = HashPrefix Sum256 toks, pe_Model = mc_Name model, pe_TokenCount = int (length toks),
      pe_TFLOPsCost = AttentionTFLOPs F model (int (length toks)), pe_CostUSD = CostUSD F model (int (length toks)),
      pe_HitCount = 0, pe_CachedAt = clk 0, pe_LastAccessedAt = clk 1\<rparr>"

section \<open>Eviction\<close>

definition enumerates :: "string list \<Rightarrow> (string, 'v) mapping \<Rightarrow> bool" where
  "enumerates order m \<longleftrightarrow> set order = Mapping.keys m"

lemma foldl_older:
  assumes "\<forall>k\<in>set ks. k \<noteq> '''' \<and> Mapping.lookup es k \<noteq> None"
    and "k0 \<noteq> '''' \<longrightarrow> (\<exists>e. Mapping.lookup es k0 = Some e \<and> pe_LastAccessedAt e = t0)"
    and "foldl (older es) (k0, t0) ks = (k1, t1)"
  shows "(k1 \<noteq> '''' \<longrightarrow> (\<exists>e. Mapping.lookup es k1 = Some e \<and> pe_LastAccessedAt e = t1)) \<and>
    (k1 = '''' \<longleftrightarrow> k0 = '''' \<and> ks = []) \<and> (k0 \<noteq> '''' \<longrightarrow> t1 \<le> t0) \<and>
    (\<forall>k\<in>set ks. \<forall>e. Mapping.lookup es k = Some e \<longrightarrow> t1 \<le> pe_LastAccessedAt e) \<and>
    (k1 = k0 \<or> k1 \<in> set ks)"
  using assms
proof (induction ks arbitrary: k0 t0)
  case (Cons k ks)
  obtain e where e: "Mapping.lookup es k = Some e" and k: "k \<noteq> ''''" using Cons.prems(1) by auto
  show ?case
  proof (cases "k0 = '''' \<or> pe_LastAccessedAt e < t0")
    case True
    then have step: "older es (k0, t0) k = (k, pe_LastAccessedAt e)" using e by (simp add: older_def)
    with Cons.prems Cons.IH [of k "pe_LastAccessedAt e"] e k True show ?thesis by auto
  next
    case False
    then have "older es (k0, t0) k = (k0, t0)" using e by (simp add: older_def)
    with Cons.prems Cons.IH [of k0 t0] e False show ?thesis by auto
  qed
qed auto

lemma oldest_key_least:
  assumes "enumerates order es" "Mapping.keys es \<noteq> {}" "'''' \<notin> Mapping.keys es"
  shows "\<exists>e. Mapping.lookup es (oldest_key es order) = Some e \<and>
    (\<forall>k e'. Mapping.lookup es k = Some e' \<longrightarrow> pe_LastAccessedAt e \<le> pe_LastAccessedAt e')"
proof -
  obtain k1 t1 where f: "foldl (older es) ('''', 0) order = (k1, t1)" by fastforce
  have order: "\<forall>k\<in>set order. k \<noteq> '''' \<and> Mapping.lookup es k \<noteq> None"
    using assms(1,3) by (auto simp: enumerates_def keys_dom_lookup)
  have "order \<noteq> []" using assms(1,2) by (auto simp: enumerates_def)
  with foldl_older [OF order _ f] have "k1 \<noteq> ''''" and r: "\<exists>e. Mapping.lookup es k1 = Some e \<and> pe_LastAccessedAt e = t1"
    "\<forall>k\<in>set order. \<forall>e. Mapping.lookup es k = Some e \<longrightarrow> t1 \<le> pe_LastAccessedAt e" by auto
  moreover have "k \<in> set order" if "Mapping.lookup es k = Some e'" for k e'
    using that assms(1) by (auto simp: enumerates_def keys_dom_lookup)
  ultimately show ?thesis using f by (auto simp: oldest_key_def)
qed

lemma size_delete_key:
  assumes "finite (Mapping.keys m)" "k \<in> Mapping.keys m"
  shows "Suc (Mapping.size (Mapping.delete k m)) = Mapping.size m"
  using assms card_Suc_Diff1 [OF assms] by (simp add: Mapping.size_def)

section \<open>Properties\<close>

text \<open>C29. A store into a full prefix cache drops exactly one entry, one that was accessed least recently, whatever the
  order in which the map is iterated, and the cache never grows past its limit. It drops one also
  when the prefix is already cached and no room is needed: the cache is then one entry short.\<close>

theorem prefix_store_evicts_oldest:
  assumes "enumerates order (pc_entries pc)" "finite (Mapping.keys (pc_entries pc))" "'''' \<notin> Mapping.keys (pc_entries pc)"
    and "int (Mapping.size (pc_entries pc)) = pc_maxSize pc" "0 < pc_maxSize pc"
  shows "\<exists>victim e. Mapping.lookup (pc_entries pc) victim = Some e \<and>
    (\<forall>k e'. Mapping.lookup (pc_entries pc) k = Some e' \<longrightarrow> pe_LastAccessedAt e \<le> pe_LastAccessedAt e') \<and>
    pc_entries (prefix_Store order entry pc) =
      Mapping.update (pe_PrefixHash entry) entry (Mapping.delete victim (pc_entries pc)) \<and>
    int (Mapping.size (pc_entries (prefix_Store order entry pc))) =
      (if pe_PrefixHash entry \<in> Mapping.keys (pc_entries pc) - {victim} then pc_maxSize pc - 1 else pc_maxSize pc)"
proof -
  let ?es = "pc_entries pc"
  have "Mapping.keys ?es \<noteq> {}" using assms(4,5) by (auto simp: Mapping.size_def)
  from oldest_key_least [OF assms(1) this assms(3)] obtain e where
    e: "Mapping.lookup ?es (oldest_key ?es order) = Some e"
    "\<forall>k e'. Mapping.lookup ?es k = Some e' \<longrightarrow> pe_LastAccessedAt e \<le> pe_LastAccessedAt e'" by blast
  let ?v = "oldest_key ?es order"
  have store: "pc_entries (prefix_Store order entry pc) = Mapping.update (pe_PrefixHash entry) entry (Mapping.delete ?v ?es)"
    using assms(4) by (simp add: prefix_Store_def)
  have v: "?v \<in> Mapping.keys ?es" using e(1) by (auto simp: keys_dom_lookup)
  have "int (Mapping.size (Mapping.delete ?v ?es)) = pc_maxSize pc - 1"
    using size_delete_key [OF assms(2) v] assms(4) by simp
  moreover have "Mapping.size (Mapping.update k x m) = (if k \<in> Mapping.keys m then Mapping.size m else Suc (Mapping.size m))"
    if "finite (Mapping.keys m)" for k x and m :: "(string, 'a PrefixCacheEntry) mapping"
    using that by (simp add: Mapping.size_def insert_absorb)
  ultimately have "int (Mapping.size (Mapping.update (pe_PrefixHash entry) entry (Mapping.delete ?v ?es))) =
      (if pe_PrefixHash entry \<in> Mapping.keys ?es - {?v} then pc_maxSize pc - 1 else pc_maxSize pc)"
    using assms(2) by simp
  with e store show ?thesis by (intro exI [of _ ?v] exI [of _ e]) simp
qed

theorem prefix_store_evicts_oldest_witness:
  "\<exists>pc entry victim e. int (Mapping.size (pc_entries pc)) = pc_maxSize pc \<and> Mapping.lookup (pc_entries pc) victim = Some e \<and>
    (\<forall>k e'. Mapping.lookup (pc_entries pc) k = Some e' \<longrightarrow> pe_LastAccessedAt e \<le> pe_LastAccessedAt e') \<and>
    pc_entries (prefix_Store [''b'', ''a''] (entry :: int PrefixCacheEntry) pc) =
      Mapping.update (pe_PrefixHash entry) entry (Mapping.delete victim (pc_entries pc))"
proof -
  let ?e = "\<lambda>h t. \<lparr>pe_PrefixHash = h, pe_Model = ''m'', pe_TokenCount = 1, pe_TFLOPsCost = 1 :: int, pe_CostUSD = 1,
    pe_HitCount = 0, pe_CachedAt = t, pe_LastAccessedAt = t\<rparr>"
  let ?pc = "\<lparr>pc_entries = Mapping.update ''a'' (?e ''a'' 1) (Mapping.update ''b'' (?e ''b'' 2) Mapping.empty), pc_maxSize = 2,
    pc_totalRequests = 0, pc_cacheHits = 0, pc_totalSavedTFLOPs = 0, pc_totalSavedUSD = 0\<rparr>"
  have size: "int (Mapping.size (pc_entries ?pc)) = pc_maxSize ?pc" by (simp add: Mapping.size_def)
  have "\<exists>victim e. Mapping.lookup (pc_entries ?pc) victim = Some e \<and>
    (\<forall>k e'. Mapping.lookup (pc_entries ?pc) k = Some e' \<longrightarrow> pe_LastAccessedAt e \<le> pe_LastAccessedAt e') \<and>
    pc_entries (prefix_Store [''b'', ''a''] (?e ''c'' 3) ?pc) =
      Mapping.update (pe_PrefixHash (?e ''c'' 3)) (?e ''c'' 3) (Mapping.delete victim (pc_entries ?pc)) \<and>
    int (Mapping.size (pc_entries (prefix_Store [''b'', ''a''] (?e ''c'' 3) ?pc))) =
      (if pe_PrefixHash (?e ''c'' 3) \<in> Mapping.keys (pc_entries ?pc) - {victim} then pc_maxSize ?pc - 1 else pc_maxSize ?pc)"
    by (rule prefix_store_evicts_oldest [OF _ _ _ size]) (simp_all add: enumerates_def insert_commute)
  with size show ?thesis by blast
qed

end
