(* ===== verification/LlmSimulation.thy ===== *)
theory LlmSimulation
  imports PrefixCache
begin

text \<open>
  The simulations of \<open>src/internal/llm\<close>: scenarios with a shared prefix (\<open>simulator.go\<close>) and the
  retrieval pipeline (\<open>rag.go\<close>). The generators of \<open>math/rand\<close> are parameters. Shown here: with a
  cache that is large enough, as it is in both, the misses are exactly the distinct prefixes.
\<close>

section \<open>The code: one request\<close>

text \<open>
  Look the prefix up and store it on a miss; \<open>iter\<close> gives the order in which the map is iterated.
\<close>

type_synonym 'f iteration = "(string, 'f PrefixCacheEntry) mapping \<Rightarrow> string list"

definition lookup_or_store :: "'f float64 \<Rightarrow> time \<Rightarrow> 'f iteration \<Rightarrow> string \<Rightarrow> 'f PrefixCacheEntry \<Rightarrow> 'f PrefixCache \<Rightarrow> 'f PrefixCache" where
  "lookup_or_store F now iter hash entry pc = (case prefix_Lookup F now hash pc of
     (Some _, pc') \<Rightarrow> pc'
   | (None, pc') \<Rightarrow> prefix_Store (iter (pc_entries pc')) entry pc')"

section \<open>The code: scenarios\<close>

record 'f Scenario =
  sc_Name :: string
  sc_Description :: string
  sc_Company :: string
  sc_SystemPromptLen :: nat
  sc_UserMessageLen :: nat
  sc_NumRequests :: nat
  sc_PrefixReuseRate :: 'f
  sc_Model :: "'f ModelConfig"

record 'f ScenarioResult =
  sr_Scenario :: "'f Scenario"
  sr_Stats :: "'f CacheStats"
  sr_WithoutCacheCost :: 'f
  sr_WithCacheCost :: 'f
  sr_SavingsUSD :: 'f
  sr_SavingsPct :: 'f
  sr_Duration :: duration

definition DefaultScenarios :: "'f float64 \<Rightarrow> 'f Scenario list" where
  "DefaultScenarios F = [
    \<lparr>sc_Name = ''Customer Service Bot'',
      sc_Description = ''500 users share the same 512-token system prompt. User messages vary.'',
      sc_Company = ''SaaS companies (Salesforce, HubSpot, Zendesk)'',
      sc_SystemPromptLen = 512, sc_UserMessageLen = 64, sc_NumRequests = 500, sc_PrefixReuseRate = fl F 1 0, sc_Model = Llama3_70B F\<rparr>,
    \<lparr>sc_Name = ''Code Assistant (RAG)'',
      sc_Description = ''200 developers, same 1024-token codebase context prepended to each query.'',
      sc_Company = ''AI coding tools (Cursor, GitHub Copilot, Sourcegraph)'',
      sc_SystemPromptLen = 1024, sc_UserMessageLen = 128, sc_NumRequests = 1000, sc_PrefixReuseRate = fl F 85 2, sc_Model = Llama3_70B F\<rparr>,
    \<lparr>sc_Name = ''RAG Pipeline (Document QA)'',
      sc_Description = ''1000 queries over the same 2048-token retrieved document. Maximum prefix reuse.'',
      sc_Company = ''Enterprise AI (Glean, Notion AI, Perplexity Enterprise)'',
      sc_SystemPromptLen = 2048, sc_UserMessageLen = 96, sc_NumRequests = 1000, sc_PrefixReuseRate = fl F 92 2, sc_Model = Llama3_70B F\<rparr>,
    \<lparr>sc_Name = ''Legal Document Analysis'',
      sc_Description = ''500 queries over the same 3000-token legal context. Fixed domain knowledge prefix.'',
      sc_Company = ''Vertical AI (Harvey, Lexion, ContractPodAi)'',
      sc_SystemPromptLen = 3000, sc_UserMessageLen = 128, sc_NumRequests = 500, sc_PrefixReuseRate = fl F 99 2, sc_Model = Qwen2_5_72B F\<rparr>,
    \<lparr>sc_Name = ''Open Source Model Comparison'',
      sc_Description = ''1000 requests across all 6 open-source models with 1024-token shared prefix.'',
      sc_Company = ''LLM API providers (Groq, Together.ai, Fireworks.ai)'',
      sc_SystemPromptLen = 1024, sc_UserMessageLen = 64, sc_NumRequests = 1000, sc_PrefixReuseRate = fl F 9 1, sc_Model = Llama3_8B F\<rparr>]"

text \<open>\<open>rand.Rand\<close>: the two draws that are used, with the state of the generator.\<close>

record ('r, 'f) rng =
  rng_Float64 :: "'r \<Rightarrow> 'f \<times> 'r"
  rng_Intn :: "int \<Rightarrow> 'r \<Rightarrow> int \<times> 'r"

definition shared_prefix :: "nat \<Rightarrow> int list" where
  "shared_prefix n = map (\<lambda>i. int i + 1000) [0..<n]"

primrec unique_prefix :: "('r, 'f) rng \<Rightarrow> nat \<Rightarrow> 'r \<Rightarrow> int list \<times> 'r" where
  "unique_prefix g 0 r = ([], r)"
| "unique_prefix g (Suc n) r = (case rng_Intn g 100000 r of (x, r1) \<Rightarrow>
     (case unique_prefix g n r1 of (xs, r2) \<Rightarrow> ((x + 200000) # xs, r2)))"

definition request_prefix :: "'f float64 \<Rightarrow> ('r, 'f) rng \<Rightarrow> 'f Scenario \<Rightarrow> 'r \<Rightarrow> int list \<times> 'r" where
  "request_prefix F g s r = (case rng_Float64 g r of (x, r1) \<Rightarrow>
     if flt F x (sc_PrefixReuseRate s) then (shared_prefix (sc_SystemPromptLen s), r1)
     else unique_prefix g (sc_SystemPromptLen s) r1)"

text \<open>The loop over the requests; \<open>clk\<close> gives the readings of the clock, three for a request.\<close>

primrec scenario_loop :: "'f float64 \<Rightarrow> (bytes \<Rightarrow> bytes) \<Rightarrow> ('r, 'f) rng \<Rightarrow> 'f iteration \<Rightarrow> 'f Scenario \<Rightarrow> nat \<Rightarrow> clock \<Rightarrow>
    'r \<times> 'f PrefixCache \<Rightarrow> 'r \<times> 'f PrefixCache" where
  "scenario_loop F Sum256 g iter s 0 clk st = st"
| "scenario_loop F Sum256 g iter s (Suc n) clk st = (case st of (r, pc) \<Rightarrow>
     (case request_prefix F g s r of (prefixTokens, r') \<Rightarrow>
        scenario_loop F Sum256 g iter s n (later 3 clk)
          (r', lookup_or_store F (clk 0) iter (HashPrefix Sum256 prefixTokens)
                 (NewEntryForPrefix F Sum256 (later 1 clk) prefixTokens (sc_Model s)) pc)))"

definition savings_pct :: "'f float64 \<Rightarrow> 'f \<Rightarrow> 'f \<Rightarrow> 'f" where
  "savings_pct F savings without =
     (if flt F (fl F 0 0) without then fmul F (fdiv F savings without) (fl F 100 0) else fl F 0 0)"

definition RunScenario :: "'f float64 \<Rightarrow> (bytes \<Rightarrow> bytes) \<Rightarrow> ('r, 'f) rng \<Rightarrow> 'r \<Rightarrow> 'f iteration \<Rightarrow> clock \<Rightarrow> 'f Scenario \<Rightarrow> 'f ScenarioResult" where
  "RunScenario F Sum256 g seed iter clk s =
     (let pc0 = NewPrefixCache F 10000;
          entry = NewEntryForPrefix F Sum256 clk (shared_prefix (sc_SystemPromptLen s)) (sc_Model s);
          pc1 = prefix_Store (iter (pc_entries pc0)) entry pc0;
          n = sc_NumRequests s;
          pc2 = snd (scenario_loop F Sum256 g iter s n (later 3 clk) (seed, pc1));
          stats = prefix_Stats F pc2;
          cost = CostUSD F (sc_Model s) (int (sc_SystemPromptLen s));
          without = fmul F cost (fl F (int n) 0);
          withCache = fmul F cost (fl F (st_CacheMisses stats) 0);
          savings = fsub F without withCache
      in \<lparr>sr_Scenario = s, sr_Stats = stats, sr_WithoutCacheCost = without, sr_WithCacheCost = withCache,
          sr_SavingsUSD = savings, sr_SavingsPct = savings_pct F savings without,
          sr_Duration = clk (3 * n + 3) - clk 2\<rparr>)"

definition RunAllModelsComparison :: "'f float64 \<Rightarrow> (bytes \<Rightarrow> bytes) \<Rightarrow> ('r, 'f) rng \<Rightarrow> 'r \<Rightarrow> 'f iteration \<Rightarrow> (nat \<Rightarrow> clock) \<Rightarrow>
    nat \<Rightarrow> nat \<Rightarrow> 'f \<Rightarrow> 'f ScenarioResult list" where
  "RunAllModelsComparison F Sum256 g seed iter clks prefixLen numRequests reuseRate =
     map (\<lambda>(i, model). RunScenario F Sum256 g seed iter (clks i)
        \<lparr>sc_Name = mc_Name model, sc_Description = '''', sc_Company = '''', sc_SystemPromptLen = prefixLen, sc_UserMessageLen = 0,
         sc_NumRequests = numRequests, sc_PrefixReuseRate = reuseRate, sc_Model = model\<rparr>) (enumerate 0 (AllModels F))"

section \<open>The code: retrieval\<close>

record Document =
  doc_ID :: string
  doc_TokenCount :: int

text \<open>\<open>%03d\<close>.\<close>

definition pad3 :: "nat \<Rightarrow> string" where
  "pad3 n = replicate (3 - length (decimal n)) CHR ''0'' @ decimal n"

definition NewDocumentStore :: "nat \<Rightarrow> int \<Rightarrow> Document list" where
  "NewDocumentStore numDocs tokensPerDoc =
     map (\<lambda>i. \<lparr>doc_ID = ''doc-'' @ pad3 (i + 1), doc_TokenCount = tokensPerDoc\<rparr>) [0..<numDocs]"

primrec Retrieve :: "Document list \<Rightarrow> int list \<Rightarrow> Document list" where
  "Retrieve docs [] = []"
| "Retrieve docs (idx # is) =
     (if 0 \<le> idx \<and> idx < int (length docs) then docs ! nat idx # Retrieve docs is else Retrieve docs is)"

record 'f RAGConfig =
  rc_Model :: "'f ModelConfig"
  rc_NumDocuments :: nat
  rc_TokensPerDoc :: int
  rc_TopK :: nat
  rc_QueryTokens :: nat
  rc_NumRequests :: nat
  rc_ZipfExponent :: 'f
  rc_RequestsPerDay :: int

definition DefaultRAGConfig :: "'f float64 \<Rightarrow> 'f RAGConfig" where
  "DefaultRAGConfig F = \<lparr>rc_Model = Llama3_70B F, rc_NumDocuments = 200, rc_TokensPerDoc = 512, rc_TopK = 3, rc_QueryTokens = 64,
     rc_NumRequests = 5000, rc_ZipfExponent = fl F 12 1, rc_RequestsPerDay = 1000000\<rparr>"

record 'f RAGResult =
  rr_Config :: "'f RAGConfig"
  rr_Stats :: "'f CacheStats"
  rr_PrefixTokens :: int
  rr_CostPerMissUSD :: 'f
  rr_WithoutCacheUSD :: 'f
  rr_WithCacheUSD :: 'f
  rr_SavingsUSD :: 'f
  rr_SavingsPct :: 'f
  rr_MonthlyWithout :: 'f
  rr_MonthlyWith :: 'f
  rr_MonthlySavings :: 'f
  rr_Duration :: duration

definition buildPrefixTokens :: "Document list \<Rightarrow> nat \<Rightarrow> int list \<Rightarrow> int list" where
  "buildPrefixTokens docs queryTokens docIndices =
     concat (map (\<lambda>idx. replicate 8 (int64 (500000 + idx))) docIndices) @ map (\<lambda>j. int64 (900000 + int j)) [0..<queryTokens]"

definition newEntryForTokenCount :: "'f float64 \<Rightarrow> clock \<Rightarrow> string \<Rightarrow> int \<Rightarrow> 'f ModelConfig \<Rightarrow> 'f PrefixCacheEntry" where
  "newEntryForTokenCount F clk hash tokenCount model =
     \<lparr>pe_PrefixHash = hash, pe_Model = mc_Name model, pe_TokenCount = tokenCount,
      pe_TFLOPsCost = AttentionTFLOPs F model tokenCount, pe_CostUSD = CostUSD F model tokenCount,
      pe_HitCount = 0, pe_CachedAt = clk 0, pe_LastAccessedAt = clk 1\<rparr>"

text \<open>\<open>zipf i\<close> is the \<open>i\<close>-th draw of the Zipf generator; a request takes \<open>TopK\<close> of them.\<close>

definition doc_indices :: "'f RAGConfig \<Rightarrow> (nat \<Rightarrow> int) \<Rightarrow> int list" where
  "doc_indices cfg zipf = sort (map zipf [0..<rc_TopK cfg])"

definition rag_prefix :: "'f RAGConfig \<Rightarrow> Document list \<Rightarrow> (nat \<Rightarrow> int) \<Rightarrow> int list" where
  "rag_prefix cfg docs zipf =
     (let docIndices = doc_indices cfg zipf in buildPrefixTokens (Retrieve docs docIndices) (rc_QueryTokens cfg) docIndices)"

definition prefix_tokens :: "'f RAGConfig \<Rightarrow> int" where
  "prefix_tokens cfg = int64 (int (rc_TopK cfg) * rc_TokensPerDoc cfg + int (rc_QueryTokens cfg))"

primrec rag_loop :: "'f float64 \<Rightarrow> (bytes \<Rightarrow> bytes) \<Rightarrow> 'f iteration \<Rightarrow> 'f RAGConfig \<Rightarrow> Document list \<Rightarrow> nat \<Rightarrow> clock \<Rightarrow> (nat \<Rightarrow> int) \<Rightarrow>
    'f PrefixCache \<Rightarrow> 'f PrefixCache" where
  "rag_loop F Sum256 iter cfg docs 0 clk zipf pc = pc"
| "rag_loop F Sum256 iter cfg docs (Suc n) clk zipf pc =
     (let hash = HashPrefix Sum256 (rag_prefix cfg docs zipf)
      in rag_loop F Sum256 iter cfg docs n (later 3 clk) (\<lambda>i. zipf (rc_TopK cfg + i))
           (lookup_or_store F (clk 0) iter hash
              (newEntryForTokenCount F (later 1 clk) hash (prefix_tokens cfg) (rc_Model cfg)) pc))"

definition RunRAGSimulation :: "'f float64 \<Rightarrow> (bytes \<Rightarrow> bytes) \<Rightarrow> 'f iteration \<Rightarrow> clock \<Rightarrow> (nat \<Rightarrow> int) \<Rightarrow> 'f RAGConfig \<Rightarrow> 'f RAGResult" where
  "RunRAGSimulation F Sum256 iter clk zipf cfg =
     (let n = rc_NumRequests cfg;
          pc = rag_loop F Sum256 iter cfg (NewDocumentStore (rc_NumDocuments cfg) (rc_TokensPerDoc cfg)) n (later 1 clk) zipf
                 (NewPrefixCache F 100000);
          stats = prefix_Stats F pc;
          costPerMiss = CostUSD F (rc_Model cfg) (prefix_tokens cfg);
          withoutCache = fmul F costPerMiss (fl F (int n) 0);
          withCache = fmul F costPerMiss (fl F (st_CacheMisses stats) 0);
          savings = fsub F withoutCache withCache;
          perReqWithout = fdiv F withoutCache (fl F (int n) 0);
          perReqWith = fdiv F withCache (fl F (int n) 0);
          monthlyRequests = fmul F (fl F (rc_RequestsPerDay cfg) 0) (fl F 30 0);
          monthlyWithout = fmul F perReqWithout monthlyRequests;
          monthlyWith = fmul F perReqWith monthlyRequests
      in \<lparr>rr_Config = cfg, rr_Stats = stats, rr_PrefixTokens = prefix_tokens cfg, rr_CostPerMissUSD = costPerMiss,
          rr_WithoutCacheUSD = withoutCache, rr_WithCacheUSD = withCache, rr_SavingsUSD = savings,
          rr_SavingsPct = savings_pct F savings withoutCache, rr_MonthlyWithout = monthlyWithout, rr_MonthlyWith = monthlyWith,
          rr_MonthlySavings = fsub F monthlyWithout monthlyWith, rr_Duration = clk (3 * n + 1) - clk 0\<rparr>)"

text \<open>The loop of \<open>formatInt\<close>: a comma before each character but the first that starts a group of three.\<close>

primrec format_loop :: "bool \<Rightarrow> string \<Rightarrow> string" where
  "format_loop first [] = []"
| "format_loop first (c # s) = (if \<not> first \<and> Suc (length s) mod 3 = 0 then '','' else '''') @ [c] @ format_loop False s"

definition formatInt :: "int \<Rightarrow> string" where
  "formatInt n = format_loop True (decimal_int n)"

section \<open>Counting hits and misses\<close>

text \<open>
  The account of a run from \<open>pc0\<close> over the hashes \<open>hs\<close> that has evicted nothing: all hashes are
  cached, and each counted as a hit unless it was new.
\<close>

definition account :: "'f PrefixCache \<Rightarrow> string list \<Rightarrow> 'f PrefixCache \<Rightarrow> bool" where
  "account pc0 hs pc \<longleftrightarrow> finite (Mapping.keys (pc_entries pc0)) \<and>
     Mapping.keys (pc_entries pc) = Mapping.keys (pc_entries pc0) \<union> set hs \<and> pc_maxSize pc = pc_maxSize pc0 \<and>
     pc_totalRequests pc = pc_totalRequests pc0 + int (length hs) \<and>
     pc_cacheHits pc = pc_cacheHits pc0 + int (length hs) - int (card (set hs - Mapping.keys (pc_entries pc0)))"

lemma account_refl: "finite (Mapping.keys (pc_entries pc)) \<Longrightarrow> account pc [] pc"
  by (simp add: account_def)

lemma card_new_hash:
  assumes "finite K"
  shows "card (insert h (set hs) - K) = (if h \<in> K \<union> set hs then card (set hs - K) else Suc (card (set hs - K)))"
  using assms by (auto simp: insert_Diff_if insert_absorb)

lemma prefix_Lookup_simps:
  assumes "prefix_Lookup F now h pc = (r, pc')"
  shows "Mapping.keys (pc_entries pc') = Mapping.keys (pc_entries pc)" "pc_maxSize pc' = pc_maxSize pc"
    "pc_totalRequests pc' = int64 (pc_totalRequests pc + 1)"
    "r = None \<longleftrightarrow> h \<notin> Mapping.keys (pc_entries pc)"
    "pc_cacheHits pc' = (if r = None then pc_cacheHits pc else int64 (pc_cacheHits pc + 1))"
proof -
  have "h \<in> Mapping.keys (pc_entries pc) \<longleftrightarrow> (\<exists>e. Mapping.lookup (pc_entries pc) h = Some e)"
    by (auto simp: keys_dom_lookup)
  with assms show "Mapping.keys (pc_entries pc') = Mapping.keys (pc_entries pc)" "pc_maxSize pc' = pc_maxSize pc"
    "pc_totalRequests pc' = int64 (pc_totalRequests pc + 1)"
    "r = None \<longleftrightarrow> h \<notin> Mapping.keys (pc_entries pc)"
    "pc_cacheHits pc' = (if r = None then pc_cacheHits pc else int64 (pc_cacheHits pc + 1))"
    by (auto simp: prefix_Lookup_def Let_def insert_absorb split: option.splits)
qed

lemma prefix_Store_room:
  assumes "int (Mapping.size (pc_entries pc)) < pc_maxSize pc"
  shows "prefix_Store order e pc = pc\<lparr>pc_entries := Mapping.update (pe_PrefixHash e) e (pc_entries pc)\<rparr>"
  using assms by (simp add: prefix_Store_def)

lemma account_step:
  assumes acc: "account pc0 hs pc" and "pe_PrefixHash e = h"
    and room: "int (card (Mapping.keys (pc_entries pc0)) + length hs) < pc_maxSize pc0"
    and "0 \<le> pc_totalRequests pc0" "pc_totalRequests pc0 + int (length hs) < 2 ^ 63 - 1"
    and "0 \<le> pc_cacheHits pc0" "pc_cacheHits pc0 + int (length hs) < 2 ^ 63 - 1"
  shows "account pc0 (hs @ [h]) (lookup_or_store F now iter h e pc)"
proof -
  let ?K = "Mapping.keys (pc_entries pc0)"
  obtain r pc1 where l: "prefix_Lookup F now h pc = (r, pc1)" by fastforce
  note s = prefix_Lookup_simps [OF l]
  have fin: "finite ?K" and keys: "Mapping.keys (pc_entries pc) = ?K \<union> set hs" using acc by (simp_all add: account_def)
  have "card (set hs - ?K) \<le> card (set hs)" by (rule card_mono) auto
  then have new: "card (set hs - ?K) \<le> length hs" using card_length [of hs] by simp
  have tot: "int64 (pc_totalRequests pc + 1) = pc_totalRequests pc0 + int (length (hs @ [h]))"
    using acc assms(4,5) by (subst int64_small) (simp_all add: account_def)
  have hit: "int64 (pc_cacheHits pc + 1) = pc_cacheHits pc + 1"
    using acc assms(6,7) new by (intro int64_small) (simp_all add: account_def)
  show ?thesis
  proof (cases r)
    case (Some x)
    then have "h \<in> ?K \<union> set hs" using s(4) keys by simp
    moreover have "lookup_or_store F now iter h e pc = pc1" using l Some by (simp add: lookup_or_store_def)
    moreover have "card (insert h (set hs) - ?K) = card (set hs - ?K)" using calculation(1) by (simp add: card_new_hash [OF fin])
    moreover have "Mapping.keys (pc_entries pc1) = ?K \<union> insert h (set hs)" using calculation(1) s(1) keys by auto
    moreover have "pc_cacheHits pc1 = pc_cacheHits pc + 1" "pc_totalRequests pc1 = pc_totalRequests pc0 + int (length (hs @ [h]))"
      using s(3,5) Some tot hit by simp_all
    ultimately show ?thesis
      using acc s(2) by (simp add: account_def)
  next
    case None
    then have h: "h \<notin> ?K \<union> set hs" using s(4) keys by simp
    have "Mapping.size (pc_entries pc1) \<le> card ?K + length hs"
      using card_Un_le [of ?K "set hs"] card_length [of hs] by (simp add: Mapping.size_def s(1) keys)
    then have "int (Mapping.size (pc_entries pc1)) < pc_maxSize pc1" using room acc s(2) by (simp add: account_def)
    then have "lookup_or_store F now iter h e pc = pc1\<lparr>pc_entries := Mapping.update h e (pc_entries pc1)\<rparr>"
      using l None assms(2) prefix_Store_room [of pc1] by (simp add: lookup_or_store_def)
    moreover have "card (insert h (set hs) - ?K) = Suc (card (set hs - ?K))" using h by (simp add: card_new_hash [OF fin])
    moreover have "pc_cacheHits pc1 = pc_cacheHits pc" "pc_totalRequests pc1 = pc_totalRequests pc0 + int (length (hs @ [h]))"
      using s(3,5) None tot by simp_all
    ultimately show ?thesis
      using acc s(1,2) by (simp add: account_def)
  qed
qed

section \<open>The retrieval pipeline\<close>

primrec rag_hashes :: "(bytes \<Rightarrow> bytes) \<Rightarrow> 'f RAGConfig \<Rightarrow> Document list \<Rightarrow> nat \<Rightarrow> (nat \<Rightarrow> int) \<Rightarrow> string list" where
  "rag_hashes Sum256 cfg docs 0 zipf = []"
| "rag_hashes Sum256 cfg docs (Suc n) zipf =
     HashPrefix Sum256 (rag_prefix cfg docs zipf) # rag_hashes Sum256 cfg docs n (\<lambda>i. zipf (rc_TopK cfg + i))"

lemma length_rag_hashes [simp]: "length (rag_hashes Sum256 cfg docs n zipf) = n"
  by (induction n arbitrary: zipf) simp_all

lemma rag_loop_account:
  assumes "account pc0 hs pc" "int (card (Mapping.keys (pc_entries pc0)) + length hs + n) \<le> pc_maxSize pc0"
    and "0 \<le> pc_totalRequests pc0" "pc_totalRequests pc0 + int (length hs + n) < 2 ^ 63 - 1"
    and "0 \<le> pc_cacheHits pc0" "pc_cacheHits pc0 + int (length hs + n) < 2 ^ 63 - 1"
  shows "account pc0 (hs @ rag_hashes Sum256 cfg docs n zipf) (rag_loop F Sum256 iter cfg docs n clk zipf pc)"
  using assms
proof (induction n arbitrary: hs pc clk zipf)
  case (Suc n)
  let ?h = "HashPrefix Sum256 (rag_prefix cfg docs zipf)"
  let ?pc = "lookup_or_store F (clk 0) iter ?h (newEntryForTokenCount F (later 1 clk) ?h (prefix_tokens cfg) (rc_Model cfg)) pc"
  have "account pc0 (hs @ [?h]) ?pc"
    using Suc.prems by (intro account_step) (simp_all add: newEntryForTokenCount_def)
  from Suc.IH [OF this] Suc.prems(2-) show ?case by (simp add: Let_def)
qed simp

lemma set_rag_hashes:
  "set (rag_hashes Sum256 cfg docs n zipf) =
     (\<lambda>i. HashPrefix Sum256 (rag_prefix cfg docs (\<lambda>j. zipf (rc_TopK cfg * i + j)))) ` {0..<n}"
proof (induction n arbitrary: zipf)
  case (Suc n)
  have "f ` {0..<Suc n} = insert (f 0) ((\<lambda>i. f (Suc i)) ` {0..<n})" for f :: "nat \<Rightarrow> string"
    by (auto simp: atLeast0LessThan lessThan_Suc_eq_insert_0 image_image)
  then show ?case using Suc [of "\<lambda>i. zipf (rc_TopK cfg + i)"] by (simp add: add.assoc)
qed simp

text \<open>Different retrievals have different prefixes.\<close>

lemma concat_replicate_inj:
  assumes "concat (map (\<lambda>x. replicate (Suc k) (f x)) xs) @ t = concat (map (\<lambda>x. replicate (Suc k) (f x)) ys) @ t"
    and "length xs = length ys" "inj_on f (set xs \<union> set ys)"
  shows "xs = ys"
  using assms(2,1,3)
proof (induction xs ys rule: list_induct2)
  case (Cons x xs y ys)
  let ?c = "\<lambda>zs. concat (map (\<lambda>x. replicate (Suc k) (f x)) zs) @ t"
  have eq: "replicate (Suc k) (f x) @ ?c xs = replicate (Suc k) (f y) @ ?c ys"
    using Cons.prems(1) by (simp only: list.map concat.simps append.assoc)
  then have "f x = f y" by (simp only: replicate_Suc append_Cons list.inject)
  then have xy: "x = y" by (rule inj_onD [OF Cons.prems(2)]) simp_all
  with eq have "?c xs = ?c ys" by (simp only: same_append_eq)
  moreover have "inj_on f (set xs \<union> set ys)" by (rule inj_on_subset [OF Cons.prems(2)]) auto
  ultimately have "xs = ys" by (rule Cons.IH)
  with xy show ?case by (rule arg_cong2)
qed (rule refl)

lemma rag_prefix_inj:
  assumes "\<And>i. 0 \<le> z i \<and> z i < 2 ^ 62" "\<And>i. 0 \<le> z' i \<and> z' i < 2 ^ 62"
  shows "rag_prefix cfg docs z = rag_prefix cfg docs z' \<longleftrightarrow> doc_indices cfg z = doc_indices cfg z'"
proof
  let ?f = "\<lambda>idx. int64 (500000 + idx)"
  assume "rag_prefix cfg docs z = rag_prefix cfg docs z'"
  then have eq: "concat (map (\<lambda>x. replicate (Suc 7) (?f x)) (doc_indices cfg z)) @ map (\<lambda>j. int64 (900000 + int j)) [0..<rc_QueryTokens cfg] =
      concat (map (\<lambda>x. replicate (Suc 7) (?f x)) (doc_indices cfg z')) @ map (\<lambda>j. int64 (900000 + int j)) [0..<rc_QueryTokens cfg]"
    unfolding rag_prefix_def buildPrefixTokens_def Let_def by simp
  have range: "0 \<le> x \<and> x < 2 ^ 62" if "x \<in> set (doc_indices cfg z) \<union> set (doc_indices cfg z')" for x
    using that assms by (auto simp: doc_indices_def)
  have f: "?f x = 500000 + x" if "0 \<le> x \<and> x < 2 ^ 62" for x
    using that by (intro int64_small) simp_all
  have "inj_on ?f (set (doc_indices cfg z) \<union> set (doc_indices cfg z'))"
  proof (rule inj_onI)
    fix x y
    assume x: "x \<in> set (doc_indices cfg z) \<union> set (doc_indices cfg z')" and y: "y \<in> set (doc_indices cfg z) \<union> set (doc_indices cfg z')"
    assume "?f x = ?f y"
    then have "500000 + x = 500000 + y" unfolding f [OF range [OF x]] f [OF range [OF y]] .
    then show "x = y" by simp
  qed
  moreover have "length (doc_indices cfg z) = length (doc_indices cfg z')" by (simp add: doc_indices_def)
  ultimately show "doc_indices cfg z = doc_indices cfg z'" by (rule concat_replicate_inj [OF eq, rotated])
qed (simp add: rag_prefix_def)

lemma doc_indices_mset: "doc_indices cfg z = doc_indices cfg z' \<longleftrightarrow> mset (map z [0..<rc_TopK cfg]) = mset (map z' [0..<rc_TopK cfg])"
proof
  assume "doc_indices cfg z = doc_indices cfg z'"
  then have "mset (doc_indices cfg z) = mset (doc_indices cfg z')" by (rule arg_cong)
  then show "mset (map z [0..<rc_TopK cfg]) = mset (map z' [0..<rc_TopK cfg])" by (simp only: doc_indices_def mset_sort)
next
  assume "mset (map z [0..<rc_TopK cfg]) = mset (map z' [0..<rc_TopK cfg])"
  then have "sorted_list_of_multiset (mset (map z [0..<rc_TopK cfg])) = sorted_list_of_multiset (mset (map z' [0..<rc_TopK cfg]))"
    by (rule arg_cong)
  then show "doc_indices cfg z = doc_indices cfg z'" by (simp only: sorted_list_of_multiset_mset doc_indices_def)
qed

lemma card_image_cong:
  assumes "\<And>i j. i \<in> A \<Longrightarrow> j \<in> A \<Longrightarrow> f i = f j \<longleftrightarrow> g i = g j" "finite A"
  shows "card (f ` A) = card (g ` A)"
proof -
  have "inj_on (\<lambda>y. f (inv_into A g y)) (g ` A)"
    by (rule inj_onI) (metis assms(1) f_inv_into_f inv_into_into)
  moreover have "(\<lambda>y. f (inv_into A g y)) ` (g ` A) = f ` A"
  proof -
    have "f (inv_into A g (g i)) = f i" if "i \<in> A" for i
      using that assms(1) [of "inv_into A g (g i)" i] by (simp add: f_inv_into_f inv_into_into)
    then show ?thesis by (simp add: image_image)
  qed
  ultimately show ?thesis by (metis card_image)
qed

section \<open>Grouping digits\<close>

lemma format_loop_digits: "CHR '','' \<notin> set s \<Longrightarrow> filter (\<lambda>c. c \<noteq> CHR '','') (format_loop b s) = s"
  by (induction s arbitrary: b) auto

section \<open>Properties\<close>

text \<open>C22. The retrieval simulation counts right: with at most 100000 requests, and no two of the prefixes that occur
  having the same hash, the misses are as many as there are different sets of retrieved documents,
  whatever their order, and every other request is a hit.\<close>

theorem rag_misses_are_distinct_retrievals:
  assumes "rc_NumRequests cfg \<le> 100000" "\<And>i. 0 \<le> zipf i \<and> zipf i < 2 ^ 62"
    and "inj_on (HashPrefix Sum256) ((\<lambda>i. rag_prefix cfg (NewDocumentStore (rc_NumDocuments cfg) (rc_TokensPerDoc cfg))
           (\<lambda>j. zipf (rc_TopK cfg * i + j))) ` {0..<rc_NumRequests cfg})"
  shows "let stats = rr_Stats (RunRAGSimulation F Sum256 iter clk zipf cfg);
             sets = (\<lambda>i. mset (map (\<lambda>j. zipf (rc_TopK cfg * i + j)) [0..<rc_TopK cfg])) ` {0..<rc_NumRequests cfg}
         in st_TotalRequests stats = int (rc_NumRequests cfg) \<and> st_CacheMisses stats = int (card sets) \<and>
            st_CacheHits stats = int (rc_NumRequests cfg) - int (card sets)"
proof -
  let ?n = "rc_NumRequests cfg" and ?docs = "NewDocumentStore (rc_NumDocuments cfg) (rc_TokensPerDoc cfg)"
  let ?start = "NewPrefixCache F 100000" and ?z = "\<lambda>i j. zipf (rc_TopK cfg * i + j)"
  let ?pc = "rag_loop F Sum256 iter cfg ?docs ?n (later 1 clk) zipf ?start"
  let ?sets = "(\<lambda>i. mset (map (?z i) [0..<rc_TopK cfg])) ` {0..<?n}"
  have "account ?start [] ?start" by (rule account_refl) (simp add: NewPrefixCache_def)
  from rag_loop_account [OF this, of ?n Sum256 cfg ?docs zipf F iter "later 1 clk"] assms(1)
  have acc: "account ?start (rag_hashes Sum256 cfg ?docs ?n zipf) ?pc" by (simp add: NewPrefixCache_def)
  have "card (set (rag_hashes Sum256 cfg ?docs ?n zipf)) = card ((\<lambda>i. rag_prefix cfg ?docs (?z i)) ` {0..<?n})"
    using card_image [OF assms(3)] by (simp add: set_rag_hashes image_image)
  also have "\<dots> = card ?sets"
    by (rule card_image_cong) (simp_all only: rag_prefix_inj [OF assms(2,2)] doc_indices_mset finite_atLeastLessThan)
  finally have c: "card (set (rag_hashes Sum256 cfg ?docs ?n zipf)) = card ?sets" .
  have "card ?sets \<le> ?n" using card_image_le [of "{0..<?n}"] by simp
  then have "int64 (int (card ?sets)) = int (card ?sets)" using assms(1) by (intro int64_small) simp_all
  moreover have empty: "Mapping.keys (pc_entries ?start) = {}" "pc_totalRequests ?start = 0" "pc_cacheHits ?start = 0"
    by (simp_all add: NewPrefixCache_def)
  moreover have "pc_totalRequests ?pc = int ?n" "pc_cacheHits ?pc = int ?n - int (card ?sets)"
    using acc c by (simp_all add: account_def empty)
  ultimately show ?thesis
    by (simp add: RunRAGSimulation_def Let_def prefix_Stats_def)
qed

text \<open>Integers stand in for floating-point numbers in the example, and the bytes hashed for their hash.\<close>

definition int_float :: "int float64" where
  "int_float = \<lparr>fl = (\<lambda>m k. m div 10 ^ k), fadd = (+), fsub = (-), fmul = (*), fdiv = (div), flt = (<)\<rparr>"

definition tiny_rag :: "int RAGConfig" where
  "tiny_rag = (DefaultRAGConfig int_float)\<lparr>rc_NumDocuments := 2, rc_TopK := 1, rc_QueryTokens := 0, rc_NumRequests := 3\<rparr>"

theorem rag_misses_are_distinct_retrievals_witness:
  "let stats = rr_Stats (RunRAGSimulation int_float (\<lambda>b. b) (\<lambda>_. []) (\<lambda>_. 1) (\<lambda>i. if i = 1 then 1 else 0) tiny_rag)
   in st_TotalRequests stats = 3 \<and> st_CacheMisses stats = 2 \<and> st_CacheHits stats = 1"
proof -
  let ?zipf = "\<lambda>i. if i = 1 then 1 else 0 :: int" and ?docs = "NewDocumentStore (rc_NumDocuments tiny_rag) (rc_TokensPerDoc tiny_rag)"
  have tiny: "rc_TopK tiny_rag = 1" "rc_NumRequests tiny_rag = 3" by (simp_all add: tiny_rag_def)
  have three: "{0..<3} = {0, 1, 2 :: nat}" by auto
  have "HashPrefix (\<lambda>b. b) (rag_prefix tiny_rag ?docs (\<lambda>j. ?zipf (1 * 0 + j))) \<noteq>
      HashPrefix (\<lambda>b. b) (rag_prefix tiny_rag ?docs (\<lambda>j. ?zipf (1 * 1 + j)))"
    "rag_prefix tiny_rag ?docs (\<lambda>j. ?zipf (1 * 0 + j)) = rag_prefix tiny_rag ?docs (\<lambda>j. ?zipf (1 * 2 + j))"
  proof -
    have eight: "(8::nat) = Suc (Suc (Suc (Suc (Suc (Suc (Suc (Suc 0)))))))" by simp
    have p: "rag_prefix tiny_rag ?docs z = replicate 8 (int64 (500000 + z 0))" for z
      by (simp add: rag_prefix_def doc_indices_def buildPrefixTokens_def tiny tiny_rag_def)
    have i: "int64 500000 = 500000" "int64 500001 = 500001" by (intro int64_small; simp)+
    have d: "decimal 500000 = ''500000''" "decimal 500001 = ''500001''" by (simp_all add: decimal.simps char_of_def bit_iff_odd)
    have "json_ints (replicate 8 500000) = ''[500000,500000,500000,500000,500000,500000,500000,500000]''"
      "json_ints (replicate 8 500001) = ''[500001,500001,500001,500001,500001,500001,500001,500001]''"
      by (simp_all add: eight json_ints_def decimal_int_def d)
    then show "HashPrefix (\<lambda>b. b) (rag_prefix tiny_rag ?docs (\<lambda>j. ?zipf (1 * 0 + j))) \<noteq>
      HashPrefix (\<lambda>b. b) (rag_prefix tiny_rag ?docs (\<lambda>j. ?zipf (1 * 1 + j)))"
      by (simp add: p i HashPrefix_def EncodeToString_def hex_digit_def char_of_def bit_iff_odd)
    show "rag_prefix tiny_rag ?docs (\<lambda>j. ?zipf (1 * 0 + j)) = rag_prefix tiny_rag ?docs (\<lambda>j. ?zipf (1 * 2 + j))"
      by (simp add: p)
  qed
  then have "inj_on (HashPrefix (\<lambda>b. b)) ((\<lambda>i. rag_prefix tiny_rag ?docs (\<lambda>j. ?zipf (rc_TopK tiny_rag * i + j))) ` {0..<rc_NumRequests tiny_rag})"
    unfolding tiny three by (auto simp: inj_on_def)
  from rag_misses_are_distinct_retrievals [OF _ _ this, of int_float "\<lambda>_. []" "\<lambda>_. 1"]
  have "let stats = rr_Stats (RunRAGSimulation int_float (\<lambda>b. b) (\<lambda>_. []) (\<lambda>_. 1) ?zipf tiny_rag);
             sets = (\<lambda>i. mset (map (\<lambda>j. ?zipf (rc_TopK tiny_rag * i + j)) [0..<rc_TopK tiny_rag])) ` {0..<rc_NumRequests tiny_rag}
         in st_TotalRequests stats = int (rc_NumRequests tiny_rag) \<and> st_CacheMisses stats = int (card sets) \<and>
            st_CacheHits stats = int (rc_NumRequests tiny_rag) - int (card sets)"
    by (simp add: tiny)
  then show ?thesis unfolding tiny three by (simp add: Let_def card_insert_if)
qed

end
