(* ===== verification/Benchmark.thy ===== *)
theory Benchmark
  imports Invalidation LlmSimulation
begin

text \<open>
  The benchmarks of \<open>src/internal/benchmark\<close>: the workload, the runs against the four eviction policies
  (\<open>eviction.go\<close>, \<open>policies.go\<close>) and the three invalidation strategies (\<open>invalidation.go\<close>), and the
  statistics. The random generator, \<open>float64\<close> arithmetic and \<open>math.Ceil\<close> are parameters.

  Shown here: the insertion sort of \<open>percentile\<close>, which swaps inside one slice, is the stable sort
  of the library; every read of a benchmark is counted once; and what the eviction counter counts.
\<close>

section \<open>The code: statistics\<close>

definition mean :: "'f float64 \<Rightarrow> 'f list \<Rightarrow> 'f" where
  "mean F values = (if values = [] then fl F 0 0
     else fdiv F (foldl (fadd F) (fl F 0 0) values) (fl F (int (length values)) 0))"

text \<open>The inner loop of the sort, from \<open>j\<close> down, and the outer loop, from \<open>i\<close> up.\<close>

fun sort_inner :: "('f \<Rightarrow> 'f \<Rightarrow> bool) \<Rightarrow> nat \<Rightarrow> 'f list \<Rightarrow> 'f list" where
  "sort_inner lt 0 xs = xs"
| "sort_inner lt (Suc j) xs =
     (if lt (xs ! Suc j) (xs ! j) then sort_inner lt j (xs[Suc j := xs ! j, j := xs ! Suc j]) else xs)"

lemma length_sort_inner [simp]: "length (sort_inner lt j xs) = length xs"
  by (induction lt j xs rule: sort_inner.induct) simp_all

function sort_outer :: "('f \<Rightarrow> 'f \<Rightarrow> bool) \<Rightarrow> nat \<Rightarrow> 'f list \<Rightarrow> 'f list" where
  "sort_outer lt i xs = (if i < length xs then sort_outer lt (Suc i) (sort_inner lt i xs) else xs)"
  by auto
termination
  by (relation "measure (\<lambda>(lt, i, xs). length xs - i)") auto

declare sort_outer.simps [simp del]

text \<open>\<open>int(math.Ceil(x))\<close> is the parameter \<open>ceil\<close>.\<close>

definition percentile :: "'f float64 \<Rightarrow> ('f \<Rightarrow> int) \<Rightarrow> 'f list \<Rightarrow> 'f \<Rightarrow> 'f" where
  "percentile F ceil values n = (if values = [] then fl F 0 0
     else let sorted = sort_outer (flt F) 1 values;
              idx = int64 (ceil (fmul F (fdiv F n (fl F 100 0)) (fl F (int (length sorted)) 0)) - 1);
              idx = (if idx < 0 then 0 else idx);
              idx = (if int (length sorted) \<le> idx then int (length sorted) - 1 else idx)
          in sorted ! nat idx)"

text \<open>\<open>float64(d.Microseconds()) / 1000.0\<close>; the division of integers truncates.\<close>

definition latency_ms :: "'f float64 \<Rightarrow> duration \<Rightarrow> 'f" where
  "latency_ms F d = fdiv F (fl F (if d < 0 then - ((- d) div 1000) else d div 1000) 0) (fl F 1000 0)"

section \<open>The code: the workload\<close>

record 'f EvictionResult =
  er_PolicyName :: string
  er_HitCount :: int
  er_MissCount :: int
  er_EvictionCount :: int
  er_MeanLatencyMs :: 'f
  er_P99LatencyMs :: 'f
  er_Error :: string

definition HitRate :: "'f float64 \<Rightarrow> 'f EvictionResult \<Rightarrow> 'f" where
  "HitRate F r = (let total = int64 (er_HitCount r + er_MissCount r)
     in if total = 0 then fl F 0 0 else fmul F (fdiv F (fl F (er_HitCount r) 0) (fl F total 0)) (fl F 100 0))"

record 'f EvictionBenchmarkConfig =
  eb_CacheCapacity :: int
  eb_TotalOps :: nat
  eb_ReadRatio :: 'f
  eb_KeySpaceSize :: int
  eb_ZipfExponent :: 'f

definition DefaultEvictionConfig :: "'f float64 \<Rightarrow> 'f EvictionBenchmarkConfig" where
  "DefaultEvictionConfig F = \<lparr>eb_CacheCapacity = 100, eb_TotalOps = 10000, eb_ReadRatio = fl F 8 1, eb_KeySpaceSize = 500,
     eb_ZipfExponent = fl F 1 0\<rparr>"

record benchOp =
  op_key :: string
  op_isRead :: bool

text \<open>
  The generator of the Zipf distribution draws from the same source as \<open>rng.Float64\<close>; \<open>zipf\<close> is
  \<open>NewZipf\<close> followed by \<open>Uint64\<close>, a function of the exponent, the largest value and the source.
\<close>

type_synonym ('r, 'f) zipf = "'f \<Rightarrow> int \<Rightarrow> 'r \<Rightarrow> nat \<times> 'r"

primrec workload_ops :: "('r \<Rightarrow> nat \<times> 'r) \<Rightarrow> ('r \<Rightarrow> bool \<times> 'r) \<Rightarrow> nat \<Rightarrow> 'r \<Rightarrow> benchOp list" where
  "workload_ops draw_key draw_read 0 r = []"
| "workload_ops draw_key draw_read (Suc n) r = (case draw_key r of (keyIdx, r1) \<Rightarrow>
     (case draw_read r1 of (isRead, r2) \<Rightarrow>
        \<lparr>op_key = ''key:'' @ decimal keyIdx, op_isRead = isRead\<rparr> # workload_ops draw_key draw_read n r2))"

definition generateWorkload :: "'f float64 \<Rightarrow> ('r, 'f) rng \<Rightarrow> ('r, 'f) zipf \<Rightarrow> 'r \<Rightarrow> 'f EvictionBenchmarkConfig \<Rightarrow> benchOp list" where
  "generateWorkload F g zipf seed cfg =
     workload_ops (zipf (fadd F (eb_ZipfExponent cfg) (fl F 1 0)) (eb_KeySpaceSize cfg - 1))
       (\<lambda>r. case rng_Float64 g r of (x, r') \<Rightarrow> (flt F x (eb_ReadRatio cfg), r')) (eb_TotalOps cfg) seed"

section \<open>The code: the eviction benchmark\<close>

record 'f benchCounts =
  bc_hits :: int
  bc_misses :: int
  bc_evictions :: int
  bc_latencies :: "'f list"

text \<open>
  One turn of the loop. \<open>clk\<close> gives the readings of the clock in the turn: the start, up to three
  by \<open>Get\<close>, two by \<open>Set\<close>, and the end.
\<close>

definition bench_op :: "'p EvictionPolicy \<Rightarrow> 'f float64 \<Rightarrow> int \<Rightarrow> clock \<Rightarrow> benchOp \<Rightarrow> 'p InMemoryCache \<times> 'f benchCounts \<Rightarrow>
    ('p InMemoryCache \<times> 'f benchCounts) option" where
  "bench_op P F capacity clk bop s = (case s of (c, n) \<Rightarrow> do {
     (c', n') \<leftarrow> (if op_isRead bop then do {
         (found, c1) \<leftarrow> cache_Get P (later 1 clk) (op_key bop) c;
         (case found of
            Some _ \<Rightarrow> Some (c1, n\<lparr>bc_hits := int64 (bc_hits n + 1)\<rparr>)
          | None \<Rightarrow> do {
              (_, c2) \<leftarrow> cache_Set P (later 4 clk) (op_key bop) ''value'' (60 * Second) c1;
              Some (c2, n\<lparr>bc_misses := int64 (bc_misses n + 1)\<rparr>) }) }
       else do {
         (_, c1) \<leftarrow> cache_Set P (later 4 clk) (op_key bop) ''value'' (60 * Second) c;
         Some (c1, if cache_Len c1 \<le> cache_Len c \<and> capacity \<le> int (cache_Len c)
           then n\<lparr>bc_evictions := int64 (bc_evictions n + 1)\<rparr> else n) });
     Some (c', n'\<lparr>bc_latencies := bc_latencies n' @ [latency_ms F (clk 6 - clk 0)]\<rparr>) })"

primrec bench_loop :: "'p EvictionPolicy \<Rightarrow> 'f float64 \<Rightarrow> int \<Rightarrow> benchOp list \<Rightarrow> clock \<Rightarrow> 'p InMemoryCache \<times> 'f benchCounts \<Rightarrow>
    ('p InMemoryCache \<times> 'f benchCounts) option" where
  "bench_loop P F capacity [] clk s = Some s"
| "bench_loop P F capacity (bop # ops) clk s = do {
     s' \<leftarrow> bench_op P F capacity clk bop s;
     bench_loop P F capacity ops (later 7 clk) s' }"

definition noCounts :: "'f benchCounts" where
  "noCounts = \<lparr>bc_hits = 0, bc_misses = 0, bc_evictions = 0, bc_latencies = []\<rparr>"

definition runSingleEvictionBenchmark :: "'f float64 \<Rightarrow> ('f \<Rightarrow> int) \<Rightarrow> clock \<Rightarrow> evictionPolicy \<Rightarrow> 'f EvictionBenchmarkConfig \<Rightarrow> benchOp list \<Rightarrow>
    'f EvictionResult option" where
  "runSingleEvictionBenchmark F ceil clk policy cfg ops = do {
     (c, n) \<leftarrow> bench_loop policies F (eb_CacheCapacity cfg) ops clk (cache_New (eb_CacheCapacity cfg) policy, noCounts);
     Some \<lparr>er_PolicyName = Name policies policy, er_HitCount = bc_hits n, er_MissCount = bc_misses n,
           er_EvictionCount = bc_evictions n, er_MeanLatencyMs = mean F (bc_latencies n),
           er_P99LatencyMs = percentile F ceil (bc_latencies n) (fl F 99 0), er_Error = ''''\<rparr> }"

definition bench_policies :: "(nat \<Rightarrow> nat) \<Rightarrow> evictionPolicy list" where
  "bench_policies draws = [PolicyLRU NewLRU, PolicyLFU NewLFU, PolicyTTL NewTTLOnly, PolicyRandom (NewRandom draws)]"

text \<open>The results that are printed and returned; \<open>clks\<close> gives the clock of each of the runs.\<close>

definition RunEvictionBenchmark :: "'f float64 \<Rightarrow> ('f \<Rightarrow> int) \<Rightarrow> ('r, 'f) rng \<Rightarrow> ('r, 'f) zipf \<Rightarrow> 'r \<Rightarrow> (nat \<Rightarrow> nat) \<Rightarrow> (nat \<Rightarrow> clock) \<Rightarrow>
    'f EvictionBenchmarkConfig \<Rightarrow> 'f EvictionResult list option" where
  "RunEvictionBenchmark F ceil g zipf seed draws clks cfg =
     (let ops = generateWorkload F g zipf seed cfg
      in those (map (\<lambda>(i, policy). runSingleEvictionBenchmark F ceil (clks i) policy cfg ops) (enumerate 0 (bench_policies draws))))"

section \<open>The code: the invalidation benchmark\<close>

record 'f InvalidationResult =
  ir_StrategyName :: string
  ir_WriteLatencyMs :: 'f
  ir_ReadLatencyMs :: 'f
  ir_HitRate :: 'f
  ir_Error :: string

record 'f InvalidationBenchmarkConfig =
  ib_CacheCapacity :: int
  ib_TotalOps :: nat
  ib_WriteRatio :: 'f
  ib_KeySpaceSize :: int

definition DefaultInvalidationConfig :: "'f float64 \<Rightarrow> 'f InvalidationBenchmarkConfig" where
  "DefaultInvalidationConfig F =
     \<lparr>ib_CacheCapacity = 100, ib_TotalOps = 5000, ib_WriteRatio = fl F 2 1, ib_KeySpaceSize = 200\<rparr>"

record 'f invalCounts =
  ic_hits :: int
  ic_total :: int
  ic_reads :: "'f list"
  ic_writes :: "'f list"
  ic_started :: "backgroundDelete list"

text \<open>
  Before a turn the goroutines that \<open>wake\<close> chooses among those the strategy has started delete
  their keys; a choice that takes none is a machine that never runs them.
\<close>

primrec run_woken :: "'p EvictionPolicy \<Rightarrow> backgroundDelete list \<Rightarrow> 'p InMemoryCache \<Rightarrow> 'p InMemoryCache option" where
  "run_woken P [] c = Some c"
| "run_woken P (b # bs) c = do { c1 \<leftarrow> run_background P b c; run_woken P bs c1 }"

definition inval_op :: "'p EvictionPolicy \<Rightarrow> 'f float64 \<Rightarrow> InvalidationStrategy \<Rightarrow> clock \<Rightarrow> benchOp \<Rightarrow> 'p InMemoryCache \<times> 'f invalCounts \<Rightarrow>
    ('p InMemoryCache \<times> 'f invalCounts) option" where
  "inval_op P F strategy clk bop s = (case s of (c, n) \<Rightarrow>
     if \<not> op_isRead bop then do {
       (_, c1, bs) \<leftarrow> strategy_OnWrite P strategy (later 1 clk) (op_key bop)
         ([CHR ''{'', CHR 0x22] @ ''updated'' @ [CHR 0x22] @ '':true}'') c;
       Some (c1, n\<lparr>ic_started := ic_started n @ bs, ic_writes := ic_writes n @ [latency_ms F (clk 6 - clk 0)]\<rparr>) }
     else do {
       (found, c1) \<leftarrow> cache_Get P (later 1 clk) (op_key bop) c;
       (c', n') \<leftarrow> (case found of
          Some _ \<Rightarrow> Some (c1, n\<lparr>ic_hits := int64 (ic_hits n + 1)\<rparr>)
        | None \<Rightarrow> do {
            (_, c2) \<leftarrow> cache_Set P (later 4 clk) (op_key bop) ''value'' (60 * Second) c1;
            Some (c2, n) });
       Some (c', n'\<lparr>ic_total := int64 (ic_total n' + 1), ic_reads := ic_reads n' @ [latency_ms F (clk 6 - clk 0)]\<rparr>) })"

primrec inval_loop :: "'p EvictionPolicy \<Rightarrow> 'f float64 \<Rightarrow> InvalidationStrategy \<Rightarrow>
    (nat \<Rightarrow> backgroundDelete list \<Rightarrow> backgroundDelete list \<times> backgroundDelete list) \<Rightarrow> benchOp list \<Rightarrow> clock \<Rightarrow>
    'p InMemoryCache \<times> 'f invalCounts \<Rightarrow> ('p InMemoryCache \<times> 'f invalCounts) option" where
  "inval_loop P F strategy wake [] clk s = Some s"
| "inval_loop P F strategy wake (bop # ops) clk s = (case s of (c, n) \<Rightarrow>
     (case wake (length ops) (ic_started n) of (woken, asleep) \<Rightarrow> do {
        c1 \<leftarrow> run_woken P woken c;
        s' \<leftarrow> inval_op P F strategy clk bop (c1, n\<lparr>ic_started := asleep\<rparr>);
        inval_loop P F strategy wake ops (later 7 clk) s' }))"

definition runSingleInvalidationBenchmark :: "'f float64 \<Rightarrow>
    (nat \<Rightarrow> backgroundDelete list \<Rightarrow> backgroundDelete list \<times> backgroundDelete list) \<Rightarrow> clock \<Rightarrow> InvalidationStrategy \<Rightarrow>
    'f InvalidationBenchmarkConfig \<Rightarrow> benchOp list \<Rightarrow> 'f InvalidationResult option" where
  "runSingleInvalidationBenchmark F wake clk strategy cfg ops = do {
     (c, n) \<leftarrow> inval_loop policies F strategy wake ops clk (cache_New (ib_CacheCapacity cfg) (PolicyLRU NewLRU),
         \<lparr>ic_hits = 0, ic_total = 0, ic_reads = [], ic_writes = [], ic_started = []\<rparr>);
     Some \<lparr>ir_StrategyName = strategy_Name strategy, ir_WriteLatencyMs = mean F (ic_writes n),
           ir_ReadLatencyMs = mean F (ic_reads n),
           ir_HitRate = (if ic_total n > 0 then fmul F (fdiv F (fl F (ic_hits n) 0) (fl F (ic_total n) 0)) (fl F 100 0) else fl F 0 0),
           ir_Error = ''''\<rparr> }"

definition RunInvalidationBenchmark :: "'f float64 \<Rightarrow> ('r, 'f) rng \<Rightarrow> ('r, 'f) zipf \<Rightarrow> 'r \<Rightarrow>
    (nat \<Rightarrow> backgroundDelete list \<Rightarrow> backgroundDelete list \<times> backgroundDelete list) \<Rightarrow> (nat \<Rightarrow> clock) \<Rightarrow>
    'f InvalidationBenchmarkConfig \<Rightarrow> 'f InvalidationResult list option" where
  "RunInvalidationBenchmark F g zipf seed wake clks cfg =
     (let ops = generateWorkload F g zipf seed
            \<lparr>eb_CacheCapacity = 0, eb_TotalOps = ib_TotalOps cfg, eb_ReadRatio = fsub F (fl F 1 0) (ib_WriteRatio cfg),
             eb_KeySpaceSize = ib_KeySpaceSize cfg, eb_ZipfExponent = fl F 1 0\<rparr>
      in those (map (\<lambda>(i, strategy). runSingleInvalidationBenchmark F wake (clks i) strategy cfg ops)
           (enumerate 0 [StrategyTTL, StrategyWriteThrough, StrategyWriteBehind])))"

section \<open>The insertion sort\<close>

text \<open>The inner loop moves the element at \<open>length ys\<close> in front of the larger elements that precede it.\<close>

lemma sort_inner_moves:
  "\<exists>as bs. ys = as @ bs \<and> sort_inner lt (length ys) (ys @ x # zs) = as @ x # bs @ zs \<and>
     (\<forall>b\<in>set bs. lt x b) \<and> (as \<noteq> [] \<longrightarrow> \<not> lt x (last as))"
proof (induction ys arbitrary: zs rule: rev_induct)
  case (snoc w ws)
  show ?case
  proof (cases "lt x w")
    case True
    obtain as bs where s: "ws = as @ bs" "sort_inner lt (length ws) (ws @ x # w # zs) = as @ x # bs @ w # zs"
      "\<forall>b\<in>set bs. lt x b" "as \<noteq> [] \<longrightarrow> \<not> lt x (last as)"
      using snoc [of "w # zs"] by blast
    have "sort_inner lt (length (ws @ [w])) ((ws @ [w]) @ x # zs) = as @ x # bs @ w # zs"
      using s(2) True by (simp add: nth_append list_update_append)
    then show ?thesis using s True by (intro exI [of _ as] exI [of _ "bs @ [w]"]) simp
  next
    case False
    then show ?thesis by (intro exI [of _ "ws @ [w]"] exI [of _ "[]"]) (simp add: nth_append)
  qed
qed simp

lemma sort_inner_at:
  assumes "i < length xs"
  obtains as bs where "take i xs = as @ bs" "sort_inner lt i xs = as @ xs ! i # bs @ drop (Suc i) xs"
    "\<forall>b\<in>set bs. lt (xs ! i) b" "as \<noteq> [] \<longrightarrow> \<not> lt (xs ! i) (last as)"
  using assms sort_inner_moves [of "take i xs" lt "xs ! i" "drop (Suc i) xs"] that
  by (auto simp: id_take_nth_drop [symmetric] min_absorb2)

text \<open>When \<open>lt\<close> compares a key, the loops keep the order among elements with the same key.\<close>

definition compares :: "('f \<Rightarrow> 'f \<Rightarrow> bool) \<Rightarrow> ('f \<Rightarrow> 'k :: linorder) \<Rightarrow> 'f list \<Rightarrow> bool" where
  "compares lt key xs \<longleftrightarrow> (\<forall>x\<in>set xs. \<forall>y\<in>set xs. lt x y \<longleftrightarrow> key x < key y)"

lemma sort_inner_keeps:
  assumes "compares lt key xs" "i < length xs"
  shows "mset (sort_inner lt i xs) = mset xs"
    and "filter (\<lambda>x. k = key x) (sort_inner lt i xs) = filter (\<lambda>x. k = key x) xs"
    and "sorted (map key (take i xs)) \<Longrightarrow> sorted (map key (take (Suc i) (sort_inner lt i xs)))"
proof -
  obtain as bs where s: "take i xs = as @ bs" "sort_inner lt i xs = as @ xs ! i # bs @ drop (Suc i) xs"
    "\<forall>b\<in>set bs. lt (xs ! i) b" "as \<noteq> [] \<longrightarrow> \<not> lt (xs ! i) (last as)"
    by (rule sort_inner_at [OF assms(2)])
  have xs: "xs = as @ bs @ xs ! i # drop (Suc i) xs"
    using id_take_nth_drop [OF assms(2)] s(1) by simp
  have mem: "set as \<subseteq> set xs" "set bs \<subseteq> set xs" "xs ! i \<in> set xs"
    using s(1) set_take_subset [of i xs] assms(2) by auto
  then have above: "\<forall>b\<in>set bs. key (xs ! i) < key b"
    using s(3) assms(1) unfolding compares_def by blast
  have below: "as \<noteq> [] \<longrightarrow> key (last as) \<le> key (xs ! i)"
  proof
    assume "as \<noteq> []"
    then have "last as \<in> set xs" using mem(1) by auto
    then show "key (last as) \<le> key (xs ! i)" using s(4) \<open>as \<noteq> []\<close> assms(1) mem(3) by (auto simp: compares_def)
  qed
  have "mset (sort_inner lt i xs) = mset (as @ bs @ xs ! i # drop (Suc i) xs)" by (simp add: s(2))
  then show "mset (sort_inner lt i xs) = mset xs" using xs by simp
  have "filter (\<lambda>x. k = key x) bs = []" if "k = key (xs ! i)"
    using above that by (auto simp: filter_empty_conv)
  then have "filter (\<lambda>x. k = key x) (sort_inner lt i xs) = filter (\<lambda>x. k = key x) (as @ bs @ xs ! i # drop (Suc i) xs)"
    by (simp add: s(2))
  then show "filter (\<lambda>x. k = key x) (sort_inner lt i xs) = filter (\<lambda>x. k = key x) xs" using xs by simp
  assume sorted: "sorted (map key (take i xs))"
  have len: "length as + length bs = i" using s(1) assms(2) by (metis length_append length_take min.absorb2 less_imp_le)
  have "take (length (as @ xs ! i # bs)) ((as @ xs ! i # bs) @ drop (Suc i) xs) = as @ xs ! i # bs"
    by (simp only: append_eq_conv_conj [THEN iffD1, OF refl, THEN conjunct1, symmetric])
  moreover have "length (as @ xs ! i # bs) = Suc i" using len by simp
  ultimately have "take (Suc i) (sort_inner lt i xs) = as @ xs ! i # bs" using s(2) by (simp only: append.assoc append_Cons)
  moreover have "\<forall>a\<in>set as. key a \<le> key (xs ! i)"
  proof
    fix a assume a: "a \<in> set as"
    have "sorted (map key as)" using sorted s(1) by (simp add: sorted_append)
    then have "key a \<le> key (last as)" using a by (cases as rule: rev_cases) (auto simp: sorted_append)
    with below a show "key a \<le> key (xs ! i)" by (cases as) auto
  qed
  ultimately show "sorted (map key (take (Suc i) (sort_inner lt i xs)))"
    using sorted s(1) above by (auto simp: sorted_append less_imp_le)
qed

lemma sort_outer_keeps:
  assumes "compares lt key xs" "sorted (map key (take i xs))"
  shows "mset (sort_outer lt i xs) = mset xs \<and> sorted (map key (sort_outer lt i xs)) \<and>
    filter (\<lambda>x. k = key x) (sort_outer lt i xs) = filter (\<lambda>x. k = key x) xs"
  using assms
proof (induction lt i xs rule: sort_outer.induct)
  case (1 lt i xs)
  show ?case
  proof (cases "i < length xs")
    case True
    note kept = sort_inner_keeps [OF 1(2) True]
    have "set (sort_inner lt i xs) = set xs" using kept(1) by (rule mset_eq_setD)
    then have "compares lt key (sort_inner lt i xs)" using 1(2) by (simp add: compares_def)
    from 1(1) [OF True this kept(3) [OF 1(3)]] kept(1,2) True show ?thesis
      by (subst (1 2 3) sort_outer.simps) simp
  next
    case False
    then show ?thesis using 1(3) by (subst (1 2 3) sort_outer.simps) simp
  qed
qed

lemma sort_outer_sort:
  assumes "compares lt key xs"
  shows "sort_outer lt 1 xs = sort_key key xs"
proof -
  have "sorted (map key (take 1 xs))" by (cases xs) simp_all
  note k = sort_outer_keeps [OF assms this]
  show ?thesis by (rule properties_for_sort_key [symmetric]) (use k in simp_all)
qed

lemma length_sort_outer [simp]: "length (sort_outer lt i xs) = length xs"
proof (induction lt i xs rule: sort_outer.induct)
  case (1 lt i xs)
  then show ?case by (subst sort_outer.simps) simp
qed

lemma clamp_index: "0 < l \<Longrightarrow> nat (max 0 (min j (int l - 1))) < l"
  by (simp add: max_def min_def nat_less_iff)

section \<open>The runs\<close>

text \<open>What one turn adds to the counters.\<close>

definition counted :: "bool \<Rightarrow> bool \<Rightarrow> 'f benchCounts \<Rightarrow> 'f benchCounts \<Rightarrow> bool" where
  "counted isRead full n n' \<longleftrightarrow>
     (if isRead then bc_evictions n' = bc_evictions n \<and>
        (bc_hits n' = int64 (bc_hits n + 1) \<and> bc_misses n' = bc_misses n \<or>
         bc_hits n' = bc_hits n \<and> bc_misses n' = int64 (bc_misses n + 1))
      else bc_hits n' = bc_hits n \<and> bc_misses n' = bc_misses n \<and>
        bc_evictions n' = (if full then int64 (bc_evictions n + 1) else bc_evictions n))"

context eviction_policy
begin

lemma Set_minute:
  assumes "cinv c"
  obtains c' where "cache_Set P clk k v (60 * Second) c = Some (None, c')" "cinv c'" "c_capacity c' = c_capacity c"
    "spec_Set (c_capacity c) k v (clk 0 + 60 * Second) (cache_view c) (cache_view c')"
proof -
  have ttl: "0 \<le> 60 * Second" "60 * Second \<le> maxTTL" "set_validate (60 * Second) = None" by (simp_all add: set_validate_def)
  show thesis using Set_correct [OF assms, of clk k v "60 * Second"] ttl that by auto
qed

lemma bench_write:
  assumes "cinv c" "c_capacity c = cap" "1 \<le> cap" "\<not> op_isRead bop"
  obtains c' n' where "bench_op P F cap clk bop (c, n) = Some (c', n')" "cinv c'" "c_capacity c' = cap"
    "counted False (cap \<le> int (cache_Len c)) n n'"
    "spec_Set cap (op_key bop) ''value'' (clk 4 + 60 * Second) (cache_view c) (cache_view c')"
proof -
  obtain c' where c': "cache_Set P (later 4 clk) (op_key bop) ''value'' (60 * Second) c = Some (None, c')" "cinv c'"
    "c_capacity c' = c_capacity c"
    "spec_Set (c_capacity c) (op_key bop) ''value'' (later 4 clk 0 + 60 * Second) (cache_view c) (cache_view c')"
    by (rule Set_minute [OF assms(1)])
  have "int (cache_Len c') \<le> cap" using cinvD(4) [OF c'(2)] c'(3) assms(2,3) by (simp add: cache_Len_def)
  then have "cache_Len c' \<le> cache_Len c" if "cap \<le> int (cache_Len c)" using that by simp
  then show thesis using that c' assms by (auto simp: bench_op_def counted_def)
qed

lemma bench_read:
  assumes "cinv c" "c_capacity c = cap" "mono clk" "op_isRead bop"
  obtains c' n' where "bench_op P F cap clk bop (c, n) = Some (c', n')" "cinv c'" "c_capacity c' = cap"
    "counted True b n n'"
    "cache_view c (op_key bop) = None \<Longrightarrow>
       spec_Set cap (op_key bop) ''value'' (clk 4 + 60 * Second) (cache_view c) (cache_view c')"
proof -
  obtain c1 where c1: "cache_Get P (later 1 clk) (op_key bop) c = Some (fst (spec_Get (clk 1) (op_key bop) (cache_view c)), c1)"
    "cinv c1" "cache_view c1 = snd (spec_Get (clk 1) (op_key bop) (cache_view c))" "c_capacity c1 = cap"
    using Get_correct [OF assms(1) mono_later [OF assms(3)], of 1 "op_key bop"] assms(2) by auto
  show thesis
  proof (cases "fst (spec_Get (clk 1) (op_key bop) (cache_view c))")
    case (Some v)
    moreover from this have "cache_view c (op_key bop) \<noteq> None"
      by (cases "cache_view c (op_key bop)") (simp_all add: spec_Get_def)
    ultimately show thesis using that c1 assms(4) by (auto simp: bench_op_def counted_def)
  next
    case None
    obtain c2 where c2: "cache_Set P (later 4 clk) (op_key bop) ''value'' (60 * Second) c1 = Some (None, c2)" "cinv c2"
      "c_capacity c2 = c_capacity c1"
      "spec_Set (c_capacity c1) (op_key bop) ''value'' (later 4 clk 0 + 60 * Second) (cache_view c1) (cache_view c2)"
      by (rule Set_minute [OF c1(2)])
    have view: "cache_view c1 = cache_view c" if "cache_view c (op_key bop) = None" using c1(3) that by (simp add: spec_Get_def)
    have "spec_Set cap (op_key bop) ''value'' (clk 4 + 60 * Second) (cache_view c) (cache_view c2)"
      if "cache_view c (op_key bop) = None" using c2(4) c1(4) view [OF that] by simp
    moreover obtain n' where "bench_op P F cap clk bop (c, n) = Some (c2, n')" "counted True b n n'"
      using None c1(1) c2(1) assms(4) by (simp add: bench_op_def counted_def)
    ultimately show thesis using that c2(2,3) c1(4) by simp
  qed
qed

lemma bench_op_counted:
  assumes "cinv c" "c_capacity c = cap" "1 \<le> cap" "mono clk"
  obtains c' n' where "bench_op P F cap clk bop (c, n) = Some (c', n')" "cinv c'" "c_capacity c' = cap"
    "counted (op_isRead bop) (cap \<le> int (cache_Len c)) n n'"
proof (cases "op_isRead bop")
  case True
  then show thesis
    using bench_read [OF assms(1,2,4) True, of F n "cap \<le> int (cache_Len c)"] that by (metis (full_types))
next
  case False
  then show thesis using bench_write [OF assms(1-3) False, of F clk n] that by (metis (full_types))
qed

text \<open>
  Over a run with fewer than \<open>2^63\<close> operations, the reads are the hits and the misses, and at most
  the writes are counted as evictions.
\<close>

lemma bench_loop_counted:
  assumes "cinv c" "c_capacity c = cap" "1 \<le> cap" "mono clk"
    and "0 \<le> bc_hits n" "0 \<le> bc_misses n" "0 \<le> bc_evictions n"
    and "bc_hits n + bc_misses n + bc_evictions n + int (length ops) < 2 ^ 63"
  shows "\<exists>c' n'. bench_loop P F cap ops clk (c, n) = Some (c', n') \<and> cinv c' \<and> c_capacity c' = cap \<and>
    0 \<le> bc_hits n' \<and> 0 \<le> bc_misses n' \<and> bc_evictions n \<le> bc_evictions n' \<and>
    bc_hits n' + bc_misses n' = bc_hits n + bc_misses n + int (length (filter op_isRead ops)) \<and>
    bc_evictions n' \<le> bc_evictions n + int (length (filter (\<lambda>bop. \<not> op_isRead bop) ops))"
  using assms
proof (induction ops arbitrary: c n clk)
  case (Cons bop ops)
  obtain c1 n1 where s: "bench_op P F cap clk bop (c, n) = Some (c1, n1)" "cinv c1" "c_capacity c1 = cap"
    "counted (op_isRead bop) (cap \<le> int (cache_Len c)) n n1"
    by (rule bench_op_counted [OF Cons.prems(1-4)])
  have small: "int64 (bc_hits n + 1) = bc_hits n + 1" "int64 (bc_misses n + 1) = bc_misses n + 1"
    "int64 (bc_evictions n + 1) = bc_evictions n + 1"
    using Cons.prems(5-8) by (intro int64_small; simp)+
  have ge: "0 \<le> bc_hits n1" "0 \<le> bc_misses n1" "bc_evictions n \<le> bc_evictions n1"
    and reads: "bc_hits n1 + bc_misses n1 = bc_hits n + bc_misses n + (if op_isRead bop then 1 else 0)"
    and ev: "bc_evictions n1 \<le> bc_evictions n + (if op_isRead bop then 0 else 1)"
    using s(4) Cons.prems(5-7) unfolding counted_def small by (auto split: if_splits)
  have sum: "bc_hits n1 + bc_misses n1 + bc_evictions n1 + int (length ops) < 2 ^ 63"
    using reads ev Cons.prems(8) by (auto split: if_splits)
  have "0 \<le> bc_evictions n1" using ge(3) Cons.prems(7) by simp
  from Cons.IH [OF s(2,3) Cons.prems(3) mono_later [OF Cons.prems(4), of 7] ge(1,2) this sum]
  obtain c' n' where r: "bench_loop P F cap ops (later 7 clk) (c1, n1) = Some (c', n')" "cinv c'" "c_capacity c' = cap"
    "0 \<le> bc_hits n'" "0 \<le> bc_misses n'" "bc_evictions n1 \<le> bc_evictions n'"
    "bc_hits n' + bc_misses n' = bc_hits n1 + bc_misses n1 + int (length (filter op_isRead ops))"
    "bc_evictions n' \<le> bc_evictions n1 + int (length (filter (\<lambda>bop. \<not> op_isRead bop) ops))"
    by blast
  have "bench_loop P F cap (bop # ops) clk (c, n) = Some (c', n')" using s(1) r(1) by simp
  moreover have "bc_hits n' + bc_misses n' = bc_hits n + bc_misses n + int (length (filter op_isRead (bop # ops)))"
    using r(7) reads by simp
  moreover have "bc_evictions n' \<le> bc_evictions n + int (length (filter (\<lambda>bop. \<not> op_isRead bop) (bop # ops)))"
    using r(8) ev by (simp split: if_splits)
  moreover have "bc_evictions n \<le> bc_evictions n'" using ge(3) r(6) by simp
  ultimately show ?case using r(2-5) by blast
qed simp

end

lemma those_Some: "those (map f xs) = Some (map g xs)" if "\<And>x. x \<in> set xs \<Longrightarrow> f x = Some (g x)"
  using that by (induction xs) simp_all

lemma bench_policies_inv:
  "p \<in> set (bench_policies draws) \<Longrightarrow> cache_inv policy_inv policy_tracked (cache_New cap p)"
  using cache_inv_built [of cap draws "''lru''"] cache_inv_built [of cap draws "''lfu''"]
    cache_inv_built [of cap draws "''ttl''"] cache_inv_built [of cap draws "''random''"]
  by (auto simp: bench_policies_def buildEvictionPolicy_def)

text \<open>A result accounts for the operations of the workload.\<close>

definition accounts :: "benchOp list \<Rightarrow> 'f EvictionResult \<Rightarrow> bool" where
  "accounts ops r \<longleftrightarrow> 0 \<le> er_HitCount r \<and> 0 \<le> er_MissCount r \<and>
     er_HitCount r + er_MissCount r = int (length (filter op_isRead ops)) \<and>
     0 \<le> er_EvictionCount r \<and> er_EvictionCount r \<le> int (length (filter (\<lambda>bop. \<not> op_isRead bop) ops))"

lemma runSingle_accounts:
  assumes "p \<in> set (bench_policies draws)" "1 \<le> eb_CacheCapacity cfg" "mono clk" "int (length ops) < 2 ^ 63"
  obtains r where "runSingleEvictionBenchmark F ceil clk p cfg ops = Some r" "accounts ops r" "er_PolicyName r = policy_Name p"
proof -
  from any.bench_loop_counted [where n = noCounts and ops = ops and F = F, OF bench_policies_inv [OF assms(1)] _ assms(2,3)] assms(4)
  obtain c n where "bench_loop policies F (eb_CacheCapacity cfg) ops clk (cache_New (eb_CacheCapacity cfg) p, noCounts) = Some (c, n)"
    "0 \<le> bc_hits n" "0 \<le> bc_misses n" "0 \<le> bc_evictions n" "bc_hits n + bc_misses n = int (length (filter op_isRead ops))"
    "bc_evictions n \<le> int (length (filter (\<lambda>bop. \<not> op_isRead bop) ops))"
    by (auto simp: noCounts_def)
  then show thesis using that by (auto simp: runSingleEvictionBenchmark_def accounts_def policies_def)
qed

lemma length_workload_ops [simp]: "length (workload_ops draw_key draw_read n r) = n"
  by (induction n arbitrary: r) (simp_all add: case_prod_unfold)

section \<open>Properties\<close>

text \<open>C19. The percentile of a sample is an element of the sorted sample: the insertion sort, which swaps inside one slice,
  gives the stable sort of the values whenever \<open><\<close> compares them as a linear order does, and the index
  taken is inside the slice whatever percentage is asked for.\<close>

theorem percentile_sorts:
  assumes "compares (flt F) key values" "values \<noteq> []"
  shows "let idx = int64 (ceil (fmul F (fdiv F n (fl F 100 0)) (fl F (int (length values)) 0)) - 1)
         in percentile F ceil values n = sort_key key values ! nat (max 0 (min idx (int (length values) - 1))) \<and>
            percentile F ceil values n \<in> set values"
proof -
  let ?idx = "int64 (ceil (fmul F (fdiv F n (fl F 100 0)) (fl F (int (length values)) 0)) - 1)"
  let ?i = "nat (max 0 (min ?idx (int (length values) - 1)))"
  have "percentile F ceil values n = sort_key key values ! ?i"
    using assms(2) sort_outer_sort [OF assms(1)] by (simp add: percentile_def Let_def min_def max_def)
  moreover have "?i < length (sort_key key values)" using assms(2) clamp_index [of "length values" ?idx] by simp
  then have "sort_key key values ! ?i \<in> set (sort_key key values)" by (rule nth_mem)
  ultimately show ?thesis by (simp add: Let_def)
qed

theorem percentile_sorts_witness:
  "percentile int_float (\<lambda>x. x) [5, 3, 9, 3, 7] 99 = 3 \<and> percentile int_float (\<lambda>x. x) [5, 3, 9, 3, 7] 250 = 9"
proof -
  have "compares (flt int_float) (\<lambda>x. x) [5, 3, 9, 3, 7]" by (simp add: compares_def int_float_def)
  from percentile_sorts [OF this, of "\<lambda>x. x" 99] percentile_sorts [OF this, of "\<lambda>x. x" 250] show ?thesis
    by (simp add: int_float_def int64_def Let_def)
qed

text \<open>C30. The eviction benchmark runs to its end under each of the four policies and accounts for its workload: the
  hits and the misses are together the reads, and no more evictions are counted than there are writes.\<close>

theorem eviction_benchmark_accounts:
  assumes "1 \<le> eb_CacheCapacity cfg" "\<And>i. mono (clks i)" "int (eb_TotalOps cfg) < 2 ^ 63"
  shows "\<exists>rs. RunEvictionBenchmark F ceil g zipf seed draws clks cfg = Some rs \<and>
    map er_PolicyName rs = [''lru'', ''lfu'', ''ttl'', ''random''] \<and>
    (\<forall>r\<in>set rs. accounts (generateWorkload F g zipf seed cfg) r)"
proof -
  let ?ops = "generateWorkload F g zipf seed cfg"
  let ?res = "\<lambda>i p. the (runSingleEvictionBenchmark F ceil (clks i) p cfg ?ops)"
  have "int (length ?ops) < 2 ^ 63" using assms(3) by (simp add: generateWorkload_def)
  then have res: "runSingleEvictionBenchmark F ceil (clks i) p cfg ?ops = Some (?res i p) \<and> accounts ?ops (?res i p) \<and>
      er_PolicyName (?res i p) = policy_Name p" if p: "p \<in> set (bench_policies draws)" for i p
    by (rule runSingle_accounts [where F = F and ceil = ceil and clk = "clks i", OF p assms(1,2)]) simp
  have mem: "snd x \<in> set (bench_policies draws)" if "x \<in> set (enumerate 0 (bench_policies draws))" for x
  proof -
    have "snd x \<in> set (map snd (enumerate 0 (bench_policies draws)))" unfolding set_map using that by (rule imageI)
    then show ?thesis by (simp only: map_snd_enumerate)
  qed
  let ?rs = "map (\<lambda>(i, p). ?res i p) (enumerate 0 (bench_policies draws))"
  have "RunEvictionBenchmark F ceil g zipf seed draws clks cfg = Some ?rs"
    unfolding RunEvictionBenchmark_def Let_def by (rule those_Some) (use res mem in auto)
  moreover have "map er_PolicyName ?rs = map (\<lambda>(i, p). policy_Name p) (enumerate 0 (bench_policies draws))"
    using res mem by auto
  moreover have "\<forall>r\<in>set ?rs. accounts ?ops r" using res mem by auto
  ultimately show ?thesis
    by (simp add: bench_policies_def policy_Name_def lru_Name_def lfu_Name_def ttl_Name_def random_Name_def)
qed

text \<open>A generator for the example: the source is the number of draws so far.\<close>

definition counting_rng :: "(nat, int) rng" where
  "counting_rng = \<lparr>rng_Float64 = (\<lambda>r. (int r mod 3, Suc r)), rng_Intn = (\<lambda>n r. (0, Suc r))\<rparr>"

definition small_bench :: "int EvictionBenchmarkConfig" where
  "small_bench = \<lparr>eb_CacheCapacity = 1, eb_TotalOps = 6, eb_ReadRatio = 1, eb_KeySpaceSize = 3, eb_ZipfExponent = 1\<rparr>"

theorem eviction_benchmark_accounts_witness:
  "\<exists>rs. RunEvictionBenchmark int_float (\<lambda>x. x) counting_rng (\<lambda>_ _ r. (r mod 2, Suc r)) 0 (\<lambda>_. 0) (\<lambda>_ i. 5 + int i) small_bench = Some rs \<and>
    map er_PolicyName rs = [''lru'', ''lfu'', ''ttl'', ''random''] \<and>
    (\<forall>r\<in>set rs. er_HitCount r + er_MissCount r = 2 \<and> er_EvictionCount r \<le> 4)"
proof -
  let ?ops = "generateWorkload int_float counting_rng (\<lambda>_ _ r. (r mod 2, Suc r)) 0 small_bench"
  have "length (filter op_isRead ?ops) = 2" "length (filter (\<lambda>bop. \<not> op_isRead bop) ?ops) = 4" by code_simp+
  moreover obtain rs where "RunEvictionBenchmark int_float (\<lambda>x. x) counting_rng (\<lambda>_ _ r. (r mod 2, Suc r)) 0 (\<lambda>_. 0)
      (\<lambda>_ i. 5 + int i) small_bench = Some rs" "map er_PolicyName rs = [''lru'', ''lfu'', ''ttl'', ''random'']"
    "\<forall>r\<in>set rs. accounts ?ops r"
    using eviction_benchmark_accounts [of small_bench "\<lambda>_ i. 5 + int i" int_float "\<lambda>x. x" counting_rng
        "\<lambda>_ _ r. (r mod 2, Suc r)" 0 "\<lambda>_. 0"]
    by (auto simp: small_bench_def mono_def)
  ultimately show ?thesis by (simp add: accounts_def)
qed

text \<open>C39. The evictions counted are not the evictions made. When the cache is full, a write of a key it already
  holds is counted though every key stays; a read of a key it does not hold is not counted though
  another key is dropped to make room.\<close>

theorem eviction_counter_is_off:
  assumes "cache_inv policy_inv policy_tracked c" "c_capacity c = int (cache_Len c)" "1 \<le> cache_Len c" "mono clk"
    and "0 \<le> bc_evictions n" "bc_evictions n < 2 ^ 62"
    and "k \<in> Mapping.keys (c_entries c)" "k' \<notin> Mapping.keys (c_entries c)"
  shows "(\<exists>c' n'. bench_op policies F (c_capacity c) clk \<lparr>op_key = k, op_isRead = False\<rparr> (c, n) = Some (c', n') \<and>
       bc_evictions n' = bc_evictions n + 1 \<and> Mapping.keys (c_entries c') = Mapping.keys (c_entries c)) \<and>
    (\<exists>c' n' victim. bench_op policies F (c_capacity c) clk \<lparr>op_key = k', op_isRead = True\<rparr> (c, n) = Some (c', n') \<and>
       bc_evictions n' = bc_evictions n \<and> victim \<in> Mapping.keys (c_entries c) \<and> victim \<notin> Mapping.keys (c_entries c'))"
proof
  let ?w = "\<lparr>op_key = k, op_isRead = False\<rparr>" and ?r = "\<lparr>op_key = k', op_isRead = True\<rparr>"
  have cap: "1 \<le> c_capacity c" "c_capacity c \<le> int (cache_Len c)" using assms(2,3) by simp_all
  have small: "int64 (bc_evictions n + 1) = bc_evictions n + 1" using assms(5,6) by (intro int64_small) simp_all
  note dom = dom_cache_view [OF assms(1)]
  obtain c' n' where w: "bench_op policies F (c_capacity c) clk ?w (c, n) = Some (c', n')" "any.cinv c'"
    "counted False (c_capacity c \<le> int (cache_Len c)) n n'"
    "spec_Set (c_capacity c) (op_key ?w) ''value'' (clk 4 + 60 * Second) (cache_view c) (cache_view c')"
    by (rule any.bench_write [OF assms(1) refl cap(1), of ?w]) simp_all
  have "dom (cache_view c') = dom (cache_view c)" using w(4) assms(7) dom by (auto simp: spec_Set_def)
  then have "Mapping.keys (c_entries c') = Mapping.keys (c_entries c)" using dom dom_cache_view [OF w(2)] by simp
  moreover have "bc_evictions n' = bc_evictions n + 1" using w(3) cap(2) small by (simp add: counted_def)
  ultimately show "\<exists>c' n'. bench_op policies F (c_capacity c) clk ?w (c, n) = Some (c', n') \<and>
       bc_evictions n' = bc_evictions n + 1 \<and> Mapping.keys (c_entries c') = Mapping.keys (c_entries c)" using w(1) by blast
  have new: "cache_view c k' = None" using assms(8) dom by (auto simp: dom_def)
  obtain c' n' where r: "bench_op policies F (c_capacity c) clk ?r (c, n) = Some (c', n')" "any.cinv c'"
    "counted True True n n'"
    "spec_Set (c_capacity c) (op_key ?r) ''value'' (clk 4 + 60 * Second) (cache_view c) (cache_view c')"
    by (rule any.bench_read [OF assms(1) refl assms(4), of ?r F n True]) (use new in simp_all)
  have "card (dom (cache_view c)) = cache_Len c" using any.cache_Len_card [OF assms(1)] by simp
  moreover obtain vo where vo: "spec_victim (c_capacity c) (cache_view c) vo"
    "cache_view c' = (spec_drop vo (cache_view c))(k' \<mapsto> (''value'', clk 4 + 60 * Second))"
    using r(4) new by (auto simp: spec_Set_def domIff)
  ultimately obtain v where v: "v \<in> dom (cache_view c)"
    "cache_view c' = ((cache_view c)(v := None))(k' \<mapsto> (''value'', clk 4 + 60 * Second))"
    using cap assms(3) by (cases vo) (auto simp: spec_victim_def spec_drop_def)
  then have "v \<notin> dom (cache_view c')" using new by auto
  then have "v \<in> Mapping.keys (c_entries c)" "v \<notin> Mapping.keys (c_entries c')" using v(1) dom dom_cache_view [OF r(2)] by simp_all
  moreover have "bc_evictions n' = bc_evictions n" using r(3) by (simp add: counted_def)
  ultimately show "\<exists>c' n' victim. bench_op policies F (c_capacity c) clk ?r (c, n) = Some (c', n') \<and>
       bc_evictions n' = bc_evictions n \<and> victim \<in> Mapping.keys (c_entries c) \<and> victim \<notin> Mapping.keys (c_entries c')" using r(1) by blast
qed

theorem eviction_counter_is_off_witness:
  "(\<exists>c' n'. bench_op policies int_float 2 (\<lambda>i. 8 + int i) \<lparr>op_key = ''a'', op_isRead = False\<rparr> (example_cache ''lru'', noCounts) = Some (c', n') \<and>
     bc_evictions n' = 1 \<and> Mapping.keys (c_entries c') = Mapping.keys (c_entries (example_cache ''lru''))) \<and>
   (\<exists>c' n' victim. bench_op policies int_float 2 (\<lambda>i. 8 + int i) \<lparr>op_key = ''c'', op_isRead = True\<rparr> (example_cache ''lru'', noCounts) = Some (c', n') \<and>
     bc_evictions n' = 0 \<and> victim \<in> Mapping.keys (c_entries (example_cache ''lru'')) \<and> victim \<notin> Mapping.keys (c_entries c'))"
proof -
  have "c_capacity (example_cache ''lru'') = 2" "cache_Len (example_cache ''lru'') = 2"
    "''a'' \<in> Mapping.keys (c_entries (example_cache ''lru''))" "''c'' \<notin> Mapping.keys (c_entries (example_cache ''lru''))"
    by code_simp+
  then show ?thesis
    using eviction_counter_is_off [OF example_cache_inv [of "''lru''"], of "\<lambda>i. 8 + int i" noCounts "''a''" "''c''" int_float]
    by (simp add: mono_def noCounts_def)
qed

end
