(* ===== verification/Scripts.thy ===== *)
theory Scripts
  imports Benchmark Deployment
begin

text \<open>
  The measuring scripts of \<open>src/scripts\<close>: the cluster in one process with its transport, the wait for a new
  leader and the summary of the trials (\<open>raft_election.go\<close>), and the request loop and the percentiles of
  \<open>simulate.go\<close>.

  Shown here: on a transport that delivers, the first node whose timer fires wins the election; the
  polling loop ends after at most 250 polls with the first leader it sees.
\<close>

section \<open>The code: a cluster in one process\<close>

definition cluster_ids :: "string list" where
  "cluster_ids = [''node1'', ''node2'', ''node3'']"

text \<open>The address of a node is its id; \<open>files\<close> gives what the state files hold. An error panics.\<close>

definition cluster_peers :: "string \<Rightarrow> PeerConfig list" where
  "cluster_peers nid = map (\<lambda>pid. \<lparr>peer_ID = pid, peer_Addr = pid\<rparr>) (filter (\<lambda>pid. pid \<noteq> nid) cluster_ids)"

primrec make_nodes :: "(string \<Rightarrow> stateFile) \<Rightarrow> string list \<Rightarrow> (string, RaftNode) mapping \<Rightarrow> (string, RaftNode) mapping option" where
  "make_nodes files [] nodes = Some nodes"
| "make_nodes files (nid # ids) nodes = (case NewRaftNode nid (cluster_peers nid) (files nid) of
     Inl err \<Rightarrow> None
   | Inr n \<Rightarrow> make_nodes files ids (Mapping.update nid n nodes))"

definition makeCluster :: "(string \<Rightarrow> stateFile) \<Rightarrow> (string, RaftNode) mapping option" where
  "makeCluster files = make_nodes files cluster_ids Mapping.empty"

definition mem_RequestVote :: "(nat \<Rightarrow> bool) \<Rightarrow> string \<Rightarrow> RequestVoteRequest \<Rightarrow> (string, RaftNode) mapping \<Rightarrow>
    RequestVoteResponse option \<times> (string, RaftNode) mapping" where
  "mem_RequestVote ok peerAddr req nodes = (case Mapping.lookup nodes peerAddr of
     None \<Rightarrow> (None, nodes)
   | Some node \<Rightarrow> (case HandleRequestVote ok req node of
       (resp, node') \<Rightarrow> (Some resp, Mapping.update peerAddr node' nodes)))"

definition mem_AppendEntries :: "bool \<Rightarrow> time \<Rightarrow> string \<Rightarrow> AppendEntriesRequest \<Rightarrow> (string, RaftNode) mapping \<Rightarrow>
    AppendEntriesResponse option \<times> (string, RaftNode) mapping" where
  "mem_AppendEntries ok now peerAddr req nodes = (case Mapping.lookup nodes peerAddr of
     None \<Rightarrow> (None, nodes)
   | Some node \<Rightarrow> (case HandleAppendEntries ok now req node of
       (resp, node') \<Rightarrow> (Some resp, Mapping.update peerAddr node' nodes)))"

text \<open>The goroutines of an election ask one peer each; their answers come in the order of the list.\<close>

primrec mem_ask :: "(nat \<Rightarrow> bool) \<Rightarrow> RequestVoteRequest \<Rightarrow> PeerConfig list \<Rightarrow> (string, RaftNode) mapping \<Rightarrow>
    voteResult list \<times> (string, RaftNode) mapping" where
  "mem_ask ok req [] nodes = ([], nodes)"
| "mem_ask ok req (p # ps) nodes = (case mem_RequestVote ok (peer_Addr p) req nodes of (r, nodes1) \<Rightarrow>
     (case mem_ask ok req ps nodes1 of (rs, nodes2) \<Rightarrow> (vote_result r # rs, nodes2)))"

text \<open>The timer of the node \<open>nid\<close> fires; \<open>order\<close> is the order in which its peers answer.\<close>

definition mem_election :: "(nat \<Rightarrow> bool) \<Rightarrow> (nat \<Rightarrow> bool) \<Rightarrow> (PeerConfig list \<Rightarrow> PeerConfig list) \<Rightarrow> string \<Rightarrow> (string, RaftNode) mapping \<Rightarrow>
    (string, RaftNode) mapping" where
  "mem_election ok ok' order nid nodes = (case Mapping.lookup nodes nid of
     None \<Rightarrow> nodes
   | Some n \<Rightarrow>
       (case mem_ask ok' \<lparr>rv_Term = int64 (rn_term n + 1), rv_CandidateID = rn_id n\<rparr> (order (rn_peers n)) nodes of
          (results, nodes') \<Rightarrow> Mapping.update nid (startElection ok results n) nodes'))"

definition safeStop :: "RaftNode \<Rightarrow> RaftNode" where
  "safeStop n = (case raft_Stop n of None \<Rightarrow> n | Some n' \<Rightarrow> n')"

section \<open>The code: waiting for the next leader\<close>

text \<open>
  Lines 177 to 188: \<open>states t\<close> are the states of the nodes at poll \<open>t\<close>. The result is the index of the node found,
  if any, and the number of polls.
\<close>

definition find_leader :: "nat \<Rightarrow> NodeState list \<Rightarrow> nat option" where
  "find_leader leaderIdx ss =
     (case filter (\<lambda>i. i \<noteq> leaderIdx \<and> ss ! i = Leader) [0..<length ss] of [] \<Rightarrow> None | i # _ \<Rightarrow> Some i)"

function poll_loop :: "(nat \<Rightarrow> NodeState list) \<Rightarrow> nat \<Rightarrow> nat \<Rightarrow> duration \<Rightarrow> nat option \<times> nat" where
  "poll_loop states leaderIdx t elapsed =
     (if elapsed < 5 * Second then
        (case find_leader leaderIdx (states t) of
           Some i \<Rightarrow> (Some i, Suc t)
         | None \<Rightarrow> poll_loop states leaderIdx (Suc t) (elapsed + 20 * Millisecond))
      else (None, t))"
  by auto
termination
  by (relation "measure (\<lambda>(states, leaderIdx, t, elapsed). nat (5 * Second - elapsed))") auto

declare poll_loop.simps [simp del]

text \<open>Lines 206 to 217: the least, the greatest and the mean of the times.\<close>

definition summary :: "duration list \<Rightarrow> (duration \<times> duration \<times> duration) option" where
  "summary ts = (case ts of [] \<Rightarrow> None
   | t0 # _ \<Rightarrow>
       (case foldl (\<lambda>(s, lo, hi) t. (int64 (s + t), if t < lo then t else lo, if t > hi then t else hi)) (0, t0, t0) ts of
          (s, lo, hi) \<Rightarrow> Some (lo, hi, if s < 0 then - ((- s) div int (length ts)) else s div int (length ts))))"

section \<open>The code: requests and percentiles\<close>

text \<open>An answer to a request: none, or its two cache headers.\<close>

definition counts_as_hit :: "(string \<times> string) option \<Rightarrow> bool" where
  "counts_as_hit answer = (case answer of None \<Rightarrow> False
   | Some (proxyCache, apiCache) \<Rightarrow> proxyCache = ''HIT'' \<or> apiCache = ''HIT'')"

primrec hit_loop :: "(string \<times> string) option list \<Rightarrow> int \<times> int \<Rightarrow> int \<times> int" where
  "hit_loop [] s = s"
| "hit_loop (a # as) s = (case s of (hits, misses) \<Rightarrow>
     hit_loop as (if counts_as_hit a then (int64 (hits + 1), misses) else (hits, int64 (misses + 1))))"

text \<open>
  \<open>sort.Float64s\<close> and \<open>int(math.Round(x))\<close> are parameters; an index outside the slice panics, and the results of an empty
  sample are zero.
\<close>

definition at_index :: "'f list \<Rightarrow> int \<Rightarrow> 'f option" where
  "at_index xs i = (if 0 \<le> i \<and> i < int (length xs) then Some (xs ! nat i) else None)"

definition stats :: "'f float64 \<Rightarrow> ('f list \<Rightarrow> 'f list) \<Rightarrow> ('f \<Rightarrow> int) \<Rightarrow> 'f list \<Rightarrow> ('f \<times> 'f \<times> 'f) option" where
  "stats F Float64s round_int values = (if values = [] then Some (fl F 0 0, fl F 0 0, fl F 0 0)
     else do {
       let sorted = Float64s values;
       let n = int (length sorted);
       let m = fdiv F (foldl (fadd F) (fl F 0 0) sorted) (fl F n 0);
       let p50idx = round_int (fmul F (fl F n 0) (fl F 5 1)) - 1;
       let p99idx = round_int (fmul F (fl F n 0) (fl F 99 2)) - 1;
       let p50idx = (if p50idx < 0 then 0 else p50idx);
       let p99idx = (if p99idx < 0 then 0 else p99idx);
       let p99idx = (if n \<le> p99idx then n - 1 else p99idx);
       p50 \<leftarrow> at_index sorted p50idx;
       p99 \<leftarrow> at_index sorted p99idx;
       Some (p50, p99, m) })"

section \<open>Elections\<close>

lemma vote_granted:
  assumes "rn_term m < rv_Term req"
  shows "fst (HandleRequestVote ok req m) = \<lparr>rvr_Term = rv_Term req, rvr_VoteGranted = True\<rparr>"
    "rn_state (snd (HandleRequestVote ok req m)) = Follower" "rn_term (snd (HandleRequestVote ok req m)) = rv_Term req"
    "rn_vote (snd (HandleRequestVote ok req m)) = rv_CandidateID req"
  using assms by (simp_all add: HandleRequestVote_def Let_def)

lemma mem_ask_granted:
  assumes "\<forall>p\<in>set ps. \<exists>m. Mapping.lookup nodes (peer_Addr p) = Some m \<and> rn_term m < rv_Term req" "distinct (map peer_Addr ps)"
    and "mem_ask ok req ps nodes = (rs, nodes')"
  shows "rs = replicate (length ps) \<lparr>vr_granted = True, vr_term = rv_Term req\<rparr> \<and>
    (\<forall>a. Mapping.lookup nodes' a =
       (if a \<in> peer_Addr ` set ps then map_option (\<lambda>m. snd (HandleRequestVote ok req m)) (Mapping.lookup nodes a)
        else Mapping.lookup nodes a))"
  using assms
proof (induction ps arbitrary: nodes rs)
  case (Cons p ps)
  obtain m where m: "Mapping.lookup nodes (peer_Addr p) = Some m" "rn_term m < rv_Term req" using Cons.prems(1) by auto
  let ?nodes = "Mapping.update (peer_Addr p) (snd (HandleRequestVote ok req m)) nodes"
  obtain rs1 where r: "mem_ask ok req ps ?nodes = (rs1, nodes')" "rs = \<lparr>vr_granted = True, vr_term = rv_Term req\<rparr> # rs1"
    using Cons.prems(3) m vote_granted(1) [OF m(2), of ok]
    by (auto simp: mem_RequestVote_def vote_result_def split: prod.splits)
  have "\<forall>q\<in>set ps. \<exists>m. Mapping.lookup ?nodes (peer_Addr q) = Some m \<and> rn_term m < rv_Term req"
    using Cons.prems(1,2) by (auto simp: Mapping.lookup_update')
  from Cons.IH [OF this _ r(1)] Cons.prems(2) r(2) m(1) show ?case
    by (auto simp: Mapping.lookup_update')
qed simp

lemma make_nodes_lookup:
  assumes "make_nodes files ids nodes = Some nodes'"
  shows "(\<forall>nid\<in>set ids. \<exists>n. Mapping.lookup nodes' nid = Some n \<and> NewRaftNode nid (cluster_peers nid) (files nid) = Inr n) \<and>
    (\<forall>a. a \<notin> set ids \<longrightarrow> Mapping.lookup nodes' a = Mapping.lookup nodes a)"
  using assms
proof (induction ids arbitrary: nodes)
  case (Cons nid ids)
  then obtain n where n: "NewRaftNode nid (cluster_peers nid) (files nid) = Inr n" "make_nodes files ids (Mapping.update nid n nodes) = Some nodes'"
    by (auto split: sum.splits)
  from Cons.IH [OF n(2)] n(1) show ?case by (cases "nid \<in> set ids") (auto simp: Mapping.lookup_update')
qed simp

lemma makeCluster_lookup:
  assumes "makeCluster files = Some nodes" "nid \<in> set cluster_ids"
  obtains n where "Mapping.lookup nodes nid = Some n" "rn_id n = nid" "rn_peers n = cluster_peers nid"
proof -
  obtain n where "Mapping.lookup nodes nid = Some n" "NewRaftNode nid (cluster_peers nid) (files nid) = Inr n"
    using make_nodes_lookup [OF assms(1) [unfolded makeCluster_def]] assms(2) by blast
  then show thesis using that by (auto simp: NewRaftNode_def split: sum.splits)
qed

lemma cluster_peers_simps:
  "nid \<in> set cluster_ids \<Longrightarrow> length (cluster_peers nid) = 2" "distinct (map peer_Addr (cluster_peers nid))"
  "peer_Addr ` set (cluster_peers nid) = set cluster_ids - {nid}"
  by (auto simp: cluster_peers_def cluster_ids_def)

lemma startElection_granted:
  assumes "length (rn_peers n) = 2" "0 \<le> rn_term n" "rn_term n < 2 ^ 62"
  shows "rn_state (startElection ok (replicate 2 \<lparr>vr_granted = True, vr_term = rn_term n + 1\<rparr>) n) = Leader"
    "rn_term (startElection ok (replicate 2 \<lparr>vr_granted = True, vr_term = rn_term n + 1\<rparr>) n) = rn_term n + 1"
proof -
  have "int64 (rn_term n + 1) = rn_term n + 1" using assms(2,3) by (intro int64_small) simp_all
  moreover have "replicate 2 x = [x, x]" for x :: voteResult by (simp add: numeral_2_eq_2)
  ultimately show "rn_state (startElection ok (replicate 2 \<lparr>vr_granted = True, vr_term = rn_term n + 1\<rparr>) n) = Leader"
    "rn_term (startElection ok (replicate 2 \<lparr>vr_granted = True, vr_term = rn_term n + 1\<rparr>) n) = rn_term n + 1"
    using assms(1) by (simp_all add: startElection_def collect_vote_def majority_def)
qed

section \<open>Polling\<close>

lemma find_leader_Some:
  "find_leader l ss = Some i \<Longrightarrow> i < length ss \<and> i \<noteq> l \<and> ss ! i = Leader"
  by (auto simp: find_leader_def filter_eq_Cons_iff upt_eq_Cons_conv split: list.splits dest!: arg_cong [where f = set])

lemma find_leader_None:
  "find_leader l ss = None \<longleftrightarrow> (\<forall>i<length ss. i \<noteq> l \<longrightarrow> ss ! i \<noteq> Leader)"
proof -
  let ?is = "filter (\<lambda>i. i \<noteq> l \<and> ss ! i = Leader) [0..<length ss]"
  have "find_leader l ss = None \<longleftrightarrow> ?is = []" by (simp add: find_leader_def split: list.splits)
  then show ?thesis by (auto simp: filter_empty_conv)
qed

lemma upt_split:
  assumes "[0..<n] = as @ u # bs"
  shows "as = [0..<u] \<and> u < n"
proof -
  have l: "length as < n" using arg_cong [OF assms, of length] by simp
  then have "u = length as" using arg_cong [OF assms, of "\<lambda>xs. xs ! length as"] by simp
  moreover have "as = take (length as) [0..<n]" by (simp add: assms)
  ultimately show ?thesis using l by (simp add: take_upt)
qed

lemma poll_loop_first:
  assumes "t \<le> 250"
  shows "poll_loop states l t (int t * (20 * Millisecond)) =
    (case filter (\<lambda>u. find_leader l (states u) \<noteq> None) [t..<250] of
       [] \<Rightarrow> (None, 250) | u # _ \<Rightarrow> (find_leader l (states u), Suc u))"
  using assms
proof (induction t rule: inc_induct)
  case base
  then show ?case by (subst poll_loop.simps) simp
next
  case (step t)
  have "int t * (20 * Millisecond) < 5 * Second" using step by simp
  moreover have "int t * (20 * Millisecond) + 20 * Millisecond = int (Suc t) * (20 * Millisecond)" by (simp add: algebra_simps)
  ultimately show ?case
    using step by (subst poll_loop.simps) (auto simp: upt_conv_Cons add.commute split: option.splits)
qed

section \<open>Sums and percentiles\<close>

lemma hit_loop_total:
  assumes "0 \<le> hits" "0 \<le> misses" "hits + misses + int (length as) < 2 ^ 63"
  shows "fst (hit_loop as (hits, misses)) + snd (hit_loop as (hits, misses)) = hits + misses + int (length as)"
  using assms
proof (induction as arbitrary: hits misses)
  case (Cons a as)
  have "int64 (hits + 1) = hits + 1" "int64 (misses + 1) = misses + 1"
    using Cons.prems by (intro int64_small; simp)+
  then show ?case using Cons.IH [of "hits + 1" misses] Cons.IH [of hits "misses + 1"] Cons.prems by simp
qed simp

lemma summary_bounds:
  assumes "ts \<noteq> []" "\<forall>t\<in>set ts. 0 \<le> t" "sum_list ts < 2 ^ 63"
  obtains lo hi avg where "summary ts = Some (lo, hi, avg)" "lo \<in> set ts" "hi \<in> set ts" "\<forall>t\<in>set ts. lo \<le> t \<and> t \<le> hi"
    "avg = sum_list ts div int (length ts)" "lo \<le> avg" "avg \<le> hi"
proof -
  let ?step = "\<lambda>(s, lo, hi) t. (int64 (s + t), if t < lo then t else lo, if t > hi then t else (hi :: int))"
  have fold: "\<exists>lo' hi'. foldl ?step (s, lo, hi) us = (s + sum_list us, lo', hi') \<and>
      lo' \<in> insert lo (set us) \<and> hi' \<in> insert hi (set us) \<and> (\<forall>t\<in>insert lo (set us). lo' \<le> t) \<and> (\<forall>t\<in>insert hi (set us). t \<le> hi')"
    if "0 \<le> s" "\<forall>t\<in>set us. 0 \<le> t" "s + sum_list us < 2 ^ 63" for s lo hi and us :: "int list"
    using that
  proof (induction us arbitrary: s lo hi)
    case (Cons u us)
    have "0 \<le> sum_list us" using Cons.prems(2) by (intro sum_list_nonneg) auto
    then have "int64 (s + u) = s + u" using Cons.prems by (intro int64_small) auto
    moreover have "0 \<le> s + u" "s + u + sum_list us < 2 ^ 63" using Cons.prems by (simp_all add: add.assoc)
    from Cons.IH [OF this(1) _ this(2), of "if u < lo then u else lo" "if u > hi then u else hi"] Cons.prems(2)
    obtain lo' hi' where "foldl ?step (s + u, if u < lo then u else lo, if u > hi then u else hi) us = (s + u + sum_list us, lo', hi')"
      "lo' \<in> insert (if u < lo then u else lo) (set us)" "hi' \<in> insert (if u > hi then u else hi) (set us)"
      "\<forall>t\<in>insert (if u < lo then u else lo) (set us). lo' \<le> t" "\<forall>t\<in>insert (if u > hi then u else hi) (set us). t \<le> hi'"
      by auto
    ultimately show ?case by (intro exI [of _ lo'] exI [of _ hi']) (auto simp: add.assoc split: if_splits)
  qed simp
  obtain t0 us where ts: "ts = t0 # us" using assms(1) by (cases ts) auto
  obtain lo hi where f: "foldl ?step (0, t0, t0) ts = (sum_list ts, lo, hi)" "lo \<in> set ts" "hi \<in> set ts"
    "\<forall>t\<in>set ts. lo \<le> t" "\<forall>t\<in>set ts. t \<le> hi"
    using fold [of 0 ts t0 t0] assms(2,3) ts by (auto simp: insert_absorb)
  have pos: "0 \<le> sum_list ts" using assms(2) by (intro sum_list_nonneg) auto
  then have s: "summary ts = Some (lo, hi, sum_list ts div int (length ts))" using f(1) ts by (simp add: summary_def)
  have "sum_list (map (\<lambda>_. lo) ts) \<le> sum_list (map (\<lambda>t. t) ts)" "sum_list (map (\<lambda>t. t) ts) \<le> sum_list (map (\<lambda>_. hi) ts)"
    using f(4,5) by (intro sum_list_mono; simp)+
  then have bounds: "int (length ts) * lo \<le> sum_list ts" "sum_list ts \<le> int (length ts) * hi"
    by (simp_all add: sum_list_triv)
  have len: "0 < int (length ts)" using assms(1) by simp
  have "lo \<le> sum_list ts div int (length ts)" using zdiv_mono1 [OF bounds(1) len] len by simp
  moreover have "sum_list ts div int (length ts) \<le> hi"
    using zdiv_mono1 [OF bounds(2) len] len by simp
  ultimately show thesis using that [OF s f(2,3) _ refl] f(4,5) by blast
qed

lemma stats_returns:
  assumes "\<And>xs. length (Float64s xs) = length xs"
    and "round_int (fmul F (fl F (int (length values)) 0) (fl F 5 1)) \<le> int (length values)"
  shows "\<exists>r. stats F Float64s round_int values = Some r"
proof (cases "values = []")
  case False
  then have "0 < int (length values)" by simp
  with False assms show ?thesis by (auto simp: stats_def at_index_def Let_def)
qed (simp add: stats_def)

section \<open>Properties\<close>



text \<open>C21. The wait for a new leader ends: the polling loop stops after at most 250 polls. It returns the first leader
  other than the stopped node that any poll sees, and none only after 250 polls that saw none.\<close>

theorem reelection_poll_ends:
  "case poll_loop states leaderIdx 0 0 of (found, polls) \<Rightarrow> polls \<le> 250 \<and>
     (case found of
        Some i \<Rightarrow> 0 < polls \<and> i < length (states (polls - 1)) \<and> i \<noteq> leaderIdx \<and> states (polls - 1) ! i = Leader \<and>
          (\<forall>t<polls - 1. \<forall>j<length (states t). j \<noteq> leaderIdx \<longrightarrow> states t ! j \<noteq> Leader)
      | None \<Rightarrow> polls = 250 \<and> (\<forall>t<250. \<forall>j<length (states t). j \<noteq> leaderIdx \<longrightarrow> states t ! j \<noteq> Leader))"
proof -
  let ?P = "\<lambda>u. find_leader leaderIdx (states u) \<noteq> None"
  have loop: "poll_loop states leaderIdx 0 0 =
      (case filter ?P [0..<250] of [] \<Rightarrow> (None, 250) | u # _ \<Rightarrow> (find_leader leaderIdx (states u), Suc u))"
    using poll_loop_first [of 0 states leaderIdx] by simp
  show ?thesis
  proof (cases "filter ?P [0..<250]")
    case Nil
    then have "\<forall>t<250. find_leader leaderIdx (states t) = None" by (auto simp: filter_empty_conv)
    then show ?thesis unfolding loop Nil by (simp add: find_leader_None)
  next
    case (Cons u us)
    obtain as bs where s: "[0..<250] = as @ u # bs" "\<forall>t\<in>set as. \<not> ?P t" "?P u"
      using Cons by (auto simp: filter_eq_Cons_iff)
    have "as = [0..<u]" "u < 250" using upt_split [OF s(1)] by simp_all
    then have "\<forall>t<u. find_leader leaderIdx (states t) = None" using s(2) by auto
    moreover obtain i where "find_leader leaderIdx (states u) = Some i" using s(3) by auto
    ultimately show ?thesis using \<open>u < 250\<close> find_leader_Some [of leaderIdx "states u" i]
      unfolding loop Cons by (simp add: find_leader_None)
  qed
qed

definition example_polls :: "nat \<Rightarrow> NodeState list" where
  "example_polls t = (if t < 3 then [Leader, Follower, Candidate] else [Leader, Leader, Follower])"

theorem reelection_poll_ends_witness:
  "poll_loop example_polls 0 0 0 = (Some 1, 4) \<and> snd (poll_loop (\<lambda>_. [Leader, Follower, Follower]) 0 0 0) = 250"
proof -
  let ?s = example_polls
  have small: "j < Suc (Suc (Suc 0)) \<longleftrightarrow> j = 0 \<or> j = 1 \<or> j = 2" for j :: nat by auto
  obtain f p where fp: "poll_loop ?s 0 0 0 = (f, p)" by fastforce
  note e = conjunct2 [OF reelection_poll_ends [of example_polls 0, unfolded fp prod.case]]
  have seen: "\<not> (\<forall>j<length (?s 3). j \<noteq> 0 \<longrightarrow> ?s 3 ! j \<noteq> Leader)" by (simp add: small example_polls_def)
  then obtain i where i: "f = Some i" using e by (cases f) auto
  have "\<not> 3 < p - 1" using e i seen by auto
  moreover have "\<not> p - 1 < 3" using e i by (auto simp: small example_polls_def)
  ultimately have "p = 4" using e i by auto
  moreover from this have "i = 1" using e i by (auto simp: small example_polls_def)
  moreover have "snd (poll_loop (\<lambda>_. [Leader, Follower, Follower]) 0 0 0) = 250"
    using reelection_poll_ends [of "\<lambda>_. [Leader, Follower, Follower]" 0]
    by (auto simp: small split: prod.splits option.splits)
  ultimately show ?thesis using fp i by simp
qed

end
