(* ===== verification/Spec2Isabelle.thy ===== *)
theory Spec2Isabelle
  imports CacheConcurrent Site Scripts
begin

text \<open>
  This development verifies the distributed caching sandbox in \<open>src\<close>: a product API with an in-process
  cache, a cluster of cache nodes with consistent hashing and Raft leader election, a caching reverse
  proxy, an LLM prefix cache, and the benchmarks over them.

  \<^bold>\<open>The program.\<close> A client talks to the reverse proxy (\<open>internal/proxy\<close>), which stores responses and
  forwards misses to the API (\<open>internal/api\<close>). The API reads through an in-memory cache (\<open>internal/cache\<close>)
  from PostgreSQL (\<open>internal/db\<close>) and tells an invalidation strategy (\<open>internal/invalidation\<close>) about
  writes. A cache asks its eviction policy (\<open>internal/eviction\<close>) for victims. A cache node
  (\<open>cmd/cachenode\<close>) serves a cache (\<open>internal/cluster/cacheserver.go\<close>), takes part in elections
  (\<open>internal/raft\<close>), and when it leads routes keys over the ring (\<open>internal/cluster/ring.go\<close>,
  \<open>coordinator.go\<close>). \<open>internal/llm\<close> and \<open>internal/benchmark\<close> are simulations over a prefix cache and over the
  in-memory cache; \<open>scripts\<close> measures elections and hit rates.

  \<^bold>\<open>Conventions\<close> (theory \<open>Prelude\<close>). A Go struct is a record, an enumeration a datatype, a method a function
  that returns the changed receiver. A run-time panic is \<open>None\<close>; an \<open>error\<close> result is a value of an option or
  sum type. An \<open>int\<close> is an integer that arithmetic brings back into 64 bits with \<open>int64\<close> where it may leave
  them; the ring's hashes are 32-bit words. Pointers that the code shares lead into stores of cells.
  Time is in nanoseconds, and a call takes the sequence of the clock readings it makes (\<open>clock\<close>),
  which is monotonic where a lemma says so. Go maps are \<open>mapping\<close>s, and where the order of iterating one
  matters it is a parameter. Strings are lists of bytes.

  \<^bold>\<open>Eviction policies.\<close> \<open>EvictionPolicy\<close> has the interface \<open>shared.EvictionPolicy\<close> as a record of methods and its
  contract as the locale \<open>eviction_policy\<close>: no method panics, and the tracked keys change as the cache
  relies on. \<open>LRU\<close> has the doubly linked list of \<open>lru.go\<close> with its pointers; \<open>ContainerHeap\<close> the algorithms of
  \<open>container/heap\<close>, proved once in a locale; \<open>IndexedHeap\<close> the heap of pointers with back indices that \<open>LFU\<close>
  (\<open>lfu.go\<close>) and \<open>TTLOnly\<close> (\<open>ttl.go\<close>) share; \<open>RandomPolicy\<close> \<open>random.go\<close>. \<open>Policies\<close> joins the four as one type and
  interprets the contract for it.

  \<^bold>\<open>The cache.\<close> \<open>Cache\<close> models \<open>cache.go\<close> and \<open>entry.go\<close>, each critical section of \<open>Get\<close> and \<open>Set\<close> separately, and proves
  every operation against a specification on partial maps (\<open>spec_Get\<close>, \<open>spec_Set\<close>) for any policy that keeps
  the contract. \<open>CachePolicies\<close> has runs, the round trip of a value through its TTL, the victims of
  LFU and TTL-only, and the refinement of a list-based reference cache by the LRU cache.
  \<open>CacheConcurrent\<close> interleaves the critical sections of any number of goroutines.

  \<^bold>\<open>The cluster.\<close> \<open>Ring\<close> models \<open>ring.go\<close>: FNV-1a, virtual nodes, the binary search, \<open>Add\<close>, \<open>Remove\<close>, \<open>Get\<close>; lookups
  go clockwise, and adding or removing a node moves only its keys. \<open>Cluster\<close> models \<open>node.go\<close>,
  \<open>coordinator.go\<close>, \<open>cacheserver.go\<close> and \<open>util.go\<close>. \<open>Raft\<close> models one node of \<open>internal/raft\<close>, and \<open>RaftCluster\<close> a cluster on
  a network that loses, delays, repeats and reorders requests, with crashes: the step relation
  cuts the goroutines where they release the lock. At most one node leads in a term; the theory also
  shows where the code falls short of Raft. \<open>Deployment\<close> runs a node on the transport of \<open>transport.go\<close>, on
  which no election is ever won, and has the node's two HTTP endpoints.

  \<^bold>\<open>Configuration and start.\<close> \<open>GoStrings\<close> has the functions of \<open>strings\<close> and \<open>strconv\<close> in use. \<open>Config\<close> models \<open>config.go\<close>, the
  peer flags and the wiring of \<open>cmd/cachenode/main.go\<close>, and the cluster addresses of \<open>cmd/api/main.go\<close>; a node
  that starts serves every sequence of requests, and nodes started with each other's addresses
  elect at most one leader in a term.

  \<^bold>\<open>The API.\<close> \<open>Invalidation\<close> has the three strategies and their contract as the locale \<open>invalidation_strategy\<close>. \<open>Database\<close> has
  the statements \<open>postgres.go\<close> sends, and shows that the \<open>UPDATE\<close> it assembles, read as SQL, sets what was
  asked for. \<open>Api\<close> has \<open>model.go\<close>, \<open>middleware.go\<close> and \<open>handler.go\<close>; \<open>ApiCoherence\<close> what a client sees: with write-through
  and requests one after the other, the current row; with any strategy, a row at most five minutes old. \<open>Debug\<close> has
  \<open>debug.go\<close> and the routes of \<open>server.go\<close>.

  \<^bold>\<open>The proxy.\<close> \<open>Proxy\<close> models \<open>store.go\<close> and \<open>proxy.go\<close>; what is replayed is an earlier response of the upstream to the
  same URL that may be stored and is still fresh. \<open>Site\<close> puts the proxy in front of the API, with requests and
  responses that may be lost: the lifetimes of the two tiers add up, so that a client of the proxy sees a row at most
  ten minutes old, and the time of one forwarded request.

  \<^bold>\<open>Simulations.\<close> \<open>PrefixCache\<close> models \<open>models.go\<close> and \<open>prefix_cache.go\<close>, \<open>LlmSimulation\<close> \<open>simulator.go\<close> and \<open>rag.go\<close>, \<open>Benchmark\<close>
  \<open>internal/benchmark\<close>, \<open>Scripts\<close> the election and counting loops of \<open>scripts\<close>. Misses are the distinct
  prefixes; the insertion sort of \<open>percentile\<close> is the stable sort; the benchmarks account for their operations;
  the wait for a leader ends.

  \<^bold>\<open>Parameters.\<close> Code outside \<open>src\<close> is an argument with named hypotheses where they are needed: PostgreSQL and pgx
  (\<open>pg_ok\<close>), the text format of \<open>encoding/json\<close> (\<open>json_ok\<close>), the proxy's upstream, the HTTP client of the debug
  endpoints, dialling in gRPC, the random generators, SHA-256, and arithmetic on \<open>float64\<close>, a record of
  operations of which nothing is assumed but where a theorem says so. The examples that accompany the
  theorems instantiate each of them with a concrete function.

  \<^bold>\<open>Bounds and loops.\<close> No definition uses fuel: every loop of the code is a structural recursion or a
  \<open>function\<close> with a measure, so each call returns or panics. Counters are exact below \<open>2^63\<close>, which the
  theorems that count assume. Runs of the API and of the server are sequences of whole requests; the
  interleavings are in \<open>CacheConcurrent\<close>, \<open>RaftCluster\<close> and the last part of \<open>ApiCoherence\<close>.

  \<^bold>\<open>Not modelled.\<close> The HTML page of \<open>internal/proxy/dashboard.go\<close>, a constant; the Prometheus collectors of
  \<open>internal/metrics\<close>, which nothing updates; printing of reports (\<open>internal/benchmark/report.go\<close>, the \<open>Print\<close> functions of
  \<open>internal/llm\<close>, \<open>formatMoney\<close> and \<open>FormatTFLOPs\<close>, which format \<open>float64\<close> values) and the \<open>main\<close> functions that only parse a
  flag and call what is modelled (\<open>cmd/benchmark\<close>, \<open>cmd/llmsim\<close>, \<open>cmd/proxy\<close>); listening, signals and shutdown;
  connecting to PostgreSQL and the migration it sends; the load phases of \<open>scripts/simulate.go\<close>
  and the channel select of \<open>waitForLeader\<close>; the gRPC stubs, which are generated. The data races that reading an
  entry outside the lock makes possible are outside the model: a critical section is atomic.
\<close>

end
